theory Spec2Isabelle
  imports Complex_Main
begin

section \<open>Python values used by the engine\<close>

text \<open>
  Exceptions are values: a call that can raise returns \<open>error + 'a\<close>, with \<open>Inl\<close> the
  exception. A text that the code takes apart (a response of the text oracle) is a
  Python \<open>str\<close>, modelled as the list of its code points; \<open>codes\<close> writes such a
  text from a literal. Texts that are only stored and compared stay literals.
\<close>

datatype error = KeyError | ValueError | OracleError

type_synonym pystr = "nat list"

definition codes :: "string \<Rightarrow> pystr" where
  "codes s = map of_char s"

text \<open>
  \<open>str.isspace\<close> for one code point: tab to carriage return, the separators 0x1C to
  0x1F, space, NEL, the no-break space and the space characters above 0xFF.
  \<open>str.strip()\<close> and the regular expression class \<open>\s\<close> use this class.
\<close>

definition py_isspace :: "nat \<Rightarrow> bool" where
  "py_isspace c =
     ((9 \<le> c \<and> c \<le> 13) \<or> (28 \<le> c \<and> c \<le> 32) \<or> c = 133 \<or> c = 160 \<or> c = 5760 \<or>
      (8192 \<le> c \<and> c \<le> 8202) \<or> c = 8232 \<or> c = 8233 \<or> c = 8239 \<or> c = 8287 \<or>
      c = 12288)"

text \<open>\<open>s.strip()\<close>: whitespace removed at both ends.\<close>

definition py_strip :: "pystr \<Rightarrow> pystr" where
  "py_strip s = rev (dropWhile py_isspace (rev (dropWhile py_isspace s)))"

text \<open>\<open>s.strip(chars)\<close>: every leading and trailing character that is in \<open>chars\<close> removed.\<close>

definition py_strip_chars :: "pystr \<Rightarrow> pystr \<Rightarrow> pystr" where
  "py_strip_chars chars s =
     rev (dropWhile (\<lambda>c. c \<in> set chars) (rev (dropWhile (\<lambda>c. c \<in> set chars) s)))"

text \<open>
  \<open>s.split(sep)\<close> for a separator of one character: one piece more than there are
  separators, the empty string giving one empty piece.
\<close>

fun py_split :: "nat \<Rightarrow> pystr \<Rightarrow> pystr list" where
  "py_split sep [] = [[]]"
| "py_split sep (c # cs) =
     (if c = sep then [] # py_split sep cs
      else (case py_split sep cs of
              [] \<Rightarrow> [[c]]
            | piece # pieces \<Rightarrow> (c # piece) # pieces))"

text \<open>
  \<open>int(s)\<close> in base 10. The interpreter first maps every code point from 127 on
  that is whitespace to a space and every decimal digit to its ASCII digit; then it
  skips the whitespace of the C locale (tab to carriage return, space) at both ends,
  reads one optional sign and a run of digits in which single underscores may stand
  between two digits, and raises \<open>ValueError\<close>, which is \<open>None\<close> here, for anything
  else and for more than 4300 digits (the default limit of the interpreter). So the
  separators 0x1C to 0x1F, which \<open>strip()\<close> removes, are no whitespace for \<open>int\<close>.
  The decimal digits are the 66 runs of ten code points of category Nd in version 14.0
  of the Unicode database, each given by the code point of its zero.
\<close>

definition int_isspace :: "nat \<Rightarrow> bool" where
  "int_isspace c = ((9 \<le> c \<and> c \<le> 13) \<or> c = 32 \<or> (127 \<le> c \<and> py_isspace c))"

definition decimal_zeros :: "nat list" where
  "decimal_zeros =
     [48, 1632, 1776, 1984, 2406, 2534, 2662, 2790, 2918, 3046, 3174, 3302, 3430, 3558,
      3664, 3792, 3872, 4160, 4240, 6112, 6160, 6470, 6608, 6784, 6800, 6992, 7088, 7232,
      7248, 42528, 43216, 43264, 43472, 43504, 43600, 44016, 65296, 66720, 68912, 69734,
      69872, 69942, 70096, 70384, 70736, 70864, 71248, 71360, 71472, 71904, 72016, 72784,
      73040, 73120, 92768, 92864, 93008, 120782, 120792, 120802, 120812, 120822, 123200,
      123632, 125264, 130032]"

definition decimal_value :: "nat \<Rightarrow> nat option" where
  "decimal_value c =
     (case find (\<lambda>zero. zero \<le> c \<and> c < zero + 10) decimal_zeros of
        None \<Rightarrow> None
      | Some zero \<Rightarrow> Some (c - zero))"

definition int_max_str_digits :: nat where
  "int_max_str_digits = 4300"

text \<open>The run after the sign: a digit, then digits with single underscores between.\<close>

fun digits_ok :: "pystr \<Rightarrow> bool" where
  "digits_ok [] = False"
| "digits_ok (c # cs) =
     (decimal_value c \<noteq> None \<and>
      (case cs of
         [] \<Rightarrow> True
       | d # ds \<Rightarrow> if d = 95 then digits_ok ds else digits_ok cs))"

definition digits_value :: "pystr \<Rightarrow> int" where
  "digits_value ds =
     foldl (\<lambda>acc c. case decimal_value c of None \<Rightarrow> acc | Some d \<Rightarrow> acc * 10 + int d) 0 ds"

definition py_int :: "pystr \<Rightarrow> int option" where
  "py_int s =
     (let t = rev (dropWhile int_isspace (rev (dropWhile int_isspace s)));
          negative = (t \<noteq> [] \<and> hd t = 45);
          ds = (if t \<noteq> [] \<and> (hd t = 45 \<or> hd t = 43) then tl t else t)
      in if digits_ok ds \<and> length (filter (\<lambda>c. c \<noteq> 95) ds) \<le> int_max_str_digits
         then Some (if negative then - digits_value ds else digits_value ds)
         else None)"

text \<open>
  \<open>re.split(r"\)\s*,\s*\(", s)\<close>. \<open>match_delim s\<close> is the rest of \<open>s\<close> after a match of
  the pattern that starts at the first character of \<open>s\<close>: a closing parenthesis (41),
  whitespace, a comma (44), whitespace, an opening parenthesis (40). Neither the comma
  nor the parenthesis is whitespace, so the greedy \<open>\s*\<close> never has to give characters
  back. \<open>re_split\<close> scans from the left, cuts at every match and resumes after it;
  \<open>cur\<close> holds the piece being read, reversed.
\<close>

definition match_delim :: "pystr \<Rightarrow> pystr option" where
  "match_delim s =
     (case s of
        [] \<Rightarrow> None
      | c # r \<Rightarrow>
          if c \<noteq> 41 then None
          else (case dropWhile py_isspace r of
                  [] \<Rightarrow> None
                | c2 # r2 \<Rightarrow>
                    if c2 \<noteq> 44 then None
                    else (case dropWhile py_isspace r2 of
                            [] \<Rightarrow> None
                          | c3 # r3 \<Rightarrow> if c3 \<noteq> 40 then None else Some r3)))"

lemma match_delim_shorter: "match_delim s = Some r \<Longrightarrow> length r < length s"
proof -
  have dw: "\<And>xs. length (dropWhile py_isspace xs) \<le> length xs"
    by (simp add: length_dropWhile_le)
  assume m: "match_delim s = Some r"
  then obtain c t where s: "s = c # t" "c = 41"
    by (cases s) (auto simp: match_delim_def split: if_splits)
  from m s obtain r2 where t: "dropWhile py_isspace t = 44 # r2"
    by (cases "dropWhile py_isspace t") (auto simp: match_delim_def split: if_splits)
  from m s t have u: "dropWhile py_isspace r2 = 40 # r"
    by (cases "dropWhile py_isspace r2") (auto simp: match_delim_def split: if_splits)
  have "length r < length (dropWhile py_isspace r2)" using u by simp
  also have "\<dots> \<le> length r2" by (rule dw)
  also have "\<dots> < length (dropWhile py_isspace t)" using t by simp
  also have "\<dots> \<le> length t" by (rule dw)
  finally show ?thesis using s by simp
qed

function re_split :: "pystr \<Rightarrow> pystr \<Rightarrow> pystr list" where
  "re_split cur [] = [rev cur]"
| "re_split cur (c # cs) =
     (case match_delim (c # cs) of
        Some rest \<Rightarrow> rev cur # re_split [] rest
      | None \<Rightarrow> re_split (c # cur) cs)"
  by pat_completeness auto
termination
  by (relation "measure (\<lambda>(cur, s). length s)") (auto dest: match_delim_shorter)

section \<open>Data model\<close>

type_synonym embedding = "real list"

record requirement =
  req_id :: int
  description :: string
  is_architecturally_significant :: bool
  quality_attributes :: "string list"
  condition_text :: string
  condition_embeddings :: embedding

record condition_group =
  nominal_condition :: string
  requirements :: "requirement list"

record satisfiable_group =
  condition_groups :: "condition_group list"

text \<open>A dictionary is an association list in insertion order, its keys distinct.\<close>

type_synonym ('k, 'v) dict = "('k \<times> 'v) list"

text \<open>\<open>d.get(k, default)\<close>.\<close>

definition dict_get :: "('k, 'v) dict \<Rightarrow> 'k \<Rightarrow> 'v \<Rightarrow> 'v" where
  "dict_get d k dflt = (case map_of d k of None \<Rightarrow> dflt | Some v \<Rightarrow> v)"

text \<open>\<open>d[k] = v\<close>: an existing key keeps its place, a new key goes to the end.\<close>

fun dict_set :: "('k, 'v) dict \<Rightarrow> 'k \<Rightarrow> 'v \<Rightarrow> ('k, 'v) dict" where
  "dict_set [] k v = [(k, v)]"
| "dict_set ((k', v') # d) k v =
     (if k' = k then (k, v) # d else (k', v') # dict_set d k v)"

text \<open>
  The scoring matrix: \<open>rows\<close> maps a pattern to its columns (quality to score),
  \<open>row_groups\<close> maps a pattern to its decision category.
\<close>

record matrix =
  rows :: "(string, (string, int) dict) dict"
  row_groups :: "(string, string) dict"

text \<open>
  The fields of the orchestrating object that the grouping, partitioning and weighting
  stages read and write.
\<close>

record architect =
  self_matrix :: matrix
  self_asrs :: "requirement list"
  self_condition_groups :: "condition_group list"
  self_satisfiable_groups :: "satisfiable_group list"

section \<open>Partition-response parser\<close>

text \<open>One token of a segment, cleaned and converted: \<open>int(id_str.strip().strip("()"))\<close>.\<close>

definition token_value :: "pystr \<Rightarrow> int option" where
  "token_value id_str = py_int (py_strip_chars (codes ''()'') (py_strip id_str))"

text \<open>
  The inner loop of the parser over the tokens of one segment; \<open>n\<close> is the number of
  condition groups, \<open>ids\<close> the indices kept so far.
\<close>

fun parse_ids :: "nat \<Rightarrow> pystr list \<Rightarrow> int list \<Rightarrow> int list" where
  "parse_ids n [] ids = ids"
| "parse_ids n (id_str # id_strings) ids =
     (case token_value id_str of
        None \<Rightarrow> parse_ids n id_strings ids
      | Some idx \<Rightarrow>
          if 1 \<le> idx \<and> idx \<le> int n then parse_ids n id_strings (ids @ [idx])
          else parse_ids n id_strings ids)"

text \<open>
  The outer loop over the segments. An index kept by \<open>parse_ids\<close> lies in
  \<open>[1, n]\<close>, so the read \<open>condition_groups[i - 1]\<close> is in range.
\<close>

fun parse_groups :: "architect \<Rightarrow> pystr list \<Rightarrow> architect" where
  "parse_groups self [] = self"
| "parse_groups self (group_str # groups) =
     (let ids = parse_ids (length (self_condition_groups self)) (py_split 44 group_str) []
      in if ids \<noteq> []
         then parse_groups
                (self\<lparr>self_satisfiable_groups :=
                   self_satisfiable_groups self @
                   [\<lparr>condition_groups =
                       map (\<lambda>i. self_condition_groups self ! nat (i - 1)) ids\<rparr>]\<rparr>)
                groups
         else parse_groups self groups)"

definition parse_satisfiable_groups_response :: "architect \<Rightarrow> pystr \<Rightarrow> architect" where
  "parse_satisfiable_groups_response self response =
     parse_groups self (re_split [] (py_strip_chars (codes ''()'') (py_strip response)))"

section \<open>Satisfiability partitioner\<close>

text \<open>
  The partition oracle is the text oracle called with the fixed instructions and the
  numbered nominal conditions. It is opaque: \<open>oracle k conditions\<close> is what the
  \<open>k\<close>-th call of the stage returns, \<open>Inl\<close> when the call raises.
\<close>

type_synonym partition_oracle = "nat \<Rightarrow> string list \<Rightarrow> error + pystr"

text \<open>The fallback after the loop: all condition groups as one satisfiable group.\<close>

definition one_big_group :: "architect \<Rightarrow> architect" where
  "one_big_group self =
     self\<lparr>self_satisfiable_groups :=
       self_satisfiable_groups self @ [\<lparr>condition_groups = self_condition_groups self\<rparr>]\<rparr>"

text \<open>
  The retry loop \<open>for _ in range(3)\<close>: \<open>k\<close> counts the oracle calls made so far, the
  last argument the attempts left. An exception of the call is caught and the loop goes
  on; the result carries the number of oracle calls made.
\<close>

fun partition_attempts :: "partition_oracle \<Rightarrow> architect \<Rightarrow> nat \<Rightarrow> nat \<Rightarrow> architect \<times> nat" where
  "partition_attempts oracle self k 0 = (one_big_group self, k)"
| "partition_attempts oracle self k (Suc left) =
     (case oracle k (map nominal_condition (self_condition_groups self)) of
        Inl e \<Rightarrow> partition_attempts oracle self (Suc k) left
      | Inr response \<Rightarrow>
          (let self' = parse_satisfiable_groups_response self response
           in if self_satisfiable_groups self' \<noteq> [] then (self', Suc k)
              else partition_attempts oracle self' (Suc k) left))"

definition generate_satisfiable_groups :: "partition_oracle \<Rightarrow> architect \<Rightarrow> architect \<times> nat" where
  "generate_satisfiable_groups oracle self =
     (if length (self_condition_groups self) \<le> 1
      then (if self_condition_groups self \<noteq> [] then (one_big_group self, 0) else (self, 0))
      else partition_attempts oracle self 0 3)"

section \<open>Weight calculator\<close>

datatype quality_weights_mode = EQUALLY_IMPORTANT | ALL_REQUIRED | INFERRED | PROVIDED

text \<open>\<open>weights[quality] = weights.get(quality, 0) + 1\<close>, over the three nested loops.\<close>

definition count_quality :: "(string, int) dict \<Rightarrow> string \<Rightarrow> (string, int) dict" where
  "count_quality weights quality = dict_set weights quality (dict_get weights quality 0 + 1)"

definition count_requirement :: "(string, int) dict \<Rightarrow> requirement \<Rightarrow> (string, int) dict" where
  "count_requirement weights req = foldl count_quality weights (quality_attributes req)"

definition count_condition_group :: "(string, int) dict \<Rightarrow> condition_group \<Rightarrow> (string, int) dict" where
  "count_condition_group weights cg = foldl count_requirement weights (requirements cg)"

definition inferred_weights :: "satisfiable_group \<Rightarrow> (string, int) dict" where
  "inferred_weights sg = foldl count_condition_group [] (condition_groups sg)"

text \<open>
  The loop over the matrix rows that ends with \<open>break\<close> after its first iteration:
  the columns of the first row, each set to 1.
\<close>

definition equal_weights :: "matrix \<Rightarrow> (string, int) dict" where
  "equal_weights m =
     (case rows m of
        [] \<Rightarrow> []
      | (pattern, columns) # rest \<Rightarrow> foldl (\<lambda>weights quality. dict_set weights quality 1) [] (map fst columns))"

text \<open>
  \<open>provided_weights\<close> is optional; the guard \<open>mode == PROVIDED and provided_weights\<close>
  holds for a dictionary that is present and not empty.
\<close>

definition calculate_quality_weights ::
  "architect \<Rightarrow> satisfiable_group \<Rightarrow> quality_weights_mode \<Rightarrow> (string, int) dict option
     \<Rightarrow> (string, int) dict" where
  "calculate_quality_weights self satisfiable_group mode provided_weights =
     (if mode = PROVIDED \<and> provided_weights \<noteq> None \<and> provided_weights \<noteq> Some []
      then the provided_weights
      else if mode = EQUALLY_IMPORTANT then equal_weights (self_matrix self)
      else inferred_weights satisfiable_group)"

definition normalize_weights :: "(string, int) dict \<Rightarrow> (string, int) dict" where
  "normalize_weights weights =
     (let total = sum_list (map snd weights)
      in if total = 0 then weights
         else map (\<lambda>(k, v). (k, (v * 100) div total)) weights)"

section \<open>Clustering engine\<close>

text \<open>
  The K-Means fit is an external library: \<open>km_inertia k data\<close> is the within-cluster sum
  of squares of the fit with \<open>k\<close> clusters, \<open>km_fit_predict k data\<close> its assignment;
  either may raise.
\<close>

record kmeans =
  km_inertia :: "int \<Rightarrow> embedding list \<Rightarrow> error + real"
  km_fit_predict :: "int \<Rightarrow> embedding list \<Rightarrow> error + int list"

text \<open>
  \<open>np.array(embeddings)\<close>: the conversion to a two-dimensional array raises
  \<open>ValueError\<close> when the vectors do not have one common length (numpy 1.24 and
  later).
\<close>

definition np_array :: "embedding list \<Rightarrow> error + embedding list" where
  "np_array embeddings =
     (if list_all (\<lambda>e. length e = length (hd embeddings)) embeddings then Inr embeddings
      else Inl ValueError)"

text \<open>The scan of the interior indices; \<open>None\<close> is the initial \<open>float("-inf")\<close>.\<close>

fun elbow_scan :: "real list \<Rightarrow> nat list \<Rightarrow> real option \<Rightarrow> int \<Rightarrow> int" where
  "elbow_scan wcss_list [] max_diff optimal_k_index = optimal_k_index"
| "elbow_scan wcss_list (i # is) max_diff optimal_k_index =
     (let diff = wcss_list ! (i - 1) - wcss_list ! i
      in if (case max_diff of None \<Rightarrow> True | Some m \<Rightarrow> diff > m)
         then elbow_scan wcss_list is (Some diff) (int i)
         else elbow_scan wcss_list is max_diff optimal_k_index)"

definition find_elbow_point :: "real list \<Rightarrow> int" where
  "find_elbow_point wcss_list =
     (if length wcss_list \<le> 2 then 0
      else elbow_scan wcss_list [1..<length wcss_list - 1] None 0)"

text \<open>The loop that fits one model per candidate cluster count and records its inertia.\<close>

fun wcss_loop :: "kmeans \<Rightarrow> embedding list \<Rightarrow> int list \<Rightarrow> real list \<Rightarrow> error + real list" where
  "wcss_loop km data [] wcss_list = Inr wcss_list"
| "wcss_loop km data (k # ks) wcss_list =
     (case km_inertia km k data of
        Inl e \<Rightarrow> Inl e
      | Inr wcss \<Rightarrow> wcss_loop km data ks (wcss_list @ [wcss]))"

definition cluster_conditions ::
  "kmeans \<Rightarrow> embedding list \<Rightarrow> int \<Rightarrow> int \<Rightarrow> error + int list" where
  "cluster_conditions km embeddings max_clusters max_cluster_size =
     (if embeddings = [] \<or> length embeddings < 2 then Inr (map int [0..<length embeddings])
      else
        (case np_array embeddings of
           Inl e \<Rightarrow> Inl e
         | Inr data \<Rightarrow>
             (let n_samples = int (length embeddings);
                  min_k = max 2 (n_samples div 10);
                  max_k = min (min max_clusters (n_samples div 5)) (n_samples - 1)
              in if max_k \<le> min_k then Inr (map int [0..<nat n_samples])
                 else
                   (case wcss_loop km data [min_k..max_k] [] of
                      Inl e \<Rightarrow> Inl e
                    | Inr wcss_list \<Rightarrow>
                        km_fit_predict km (min_k + find_elbow_point wcss_list) data))))"

text \<open>
  \<open>map_to_clusters\<close>: \<open>zip\<close> stops at the end of the shorter list; a cluster id seen
  for the first time opens a new entry.
\<close>

definition cluster_map_add :: "(int, 'a list) dict \<Rightarrow> 'a \<times> int \<Rightarrow> (int, 'a list) dict" where
  "cluster_map_add cluster_map p =
     (case p of (item, cluster_id) \<Rightarrow>
        dict_set cluster_map cluster_id (dict_get cluster_map cluster_id [] @ [item]))"

definition map_to_clusters :: "'a list \<Rightarrow> int list \<Rightarrow> (int, 'a list) dict" where
  "map_to_clusters items cluster_assignments =
     foldl cluster_map_add [] (zip items cluster_assignments)"

section \<open>Condition grouper\<close>

definition ANY_CIRCUMSTANCES_CONDITION :: string where
  "ANY_CIRCUMSTANCES_CONDITION = ''under any circumstances''"

text \<open>
  The embedding oracle returns one vector per text, an empty vector where the embedding
  of a text failed. The equivalence oracle is the text oracle asked about two
  conditions: \<open>oracle k c1 c2\<close> is what the \<open>k\<close>-th call returns, \<open>Inl\<close> when it raises.
\<close>

type_synonym embedding_oracle = "string list \<Rightarrow> embedding list"

type_synonym equivalence_oracle = "nat \<Rightarrow> string \<Rightarrow> string \<Rightarrow> error + pystr"

text \<open>
  The test \<open>"true" in response.lower()\<close>. No code point other than the ASCII
  capitals has one of the letters t, r, u, e in its lower-case form, so lowering the
  ASCII capitals decides the test.
\<close>

definition ascii_lower :: "nat \<Rightarrow> nat" where
  "ascii_lower c = (if 65 \<le> c \<and> c \<le> 90 then c + 32 else c)"

fun py_contains :: "pystr \<Rightarrow> pystr \<Rightarrow> bool" where
  "py_contains needle [] = (needle = [])"
| "py_contains needle (c # cs) =
     (take (length needle) (c # cs) = needle \<or> py_contains needle cs)"

definition check_condition_equivalence ::
  "equivalence_oracle \<Rightarrow> nat \<Rightarrow> string \<Rightarrow> string \<Rightarrow> bool" where
  "check_condition_equivalence oracle k condition1 condition2 =
     (case oracle k condition1 condition2 of
        Inl e \<Rightarrow> False
      | Inr response \<Rightarrow> py_contains (codes ''true'') (map ascii_lower response))"

text \<open>
  The loop that stores the embeddings: the \<open>i\<close>-th requirement with a condition gets
  the \<open>i\<close>-th embedding while there is one. The requirement objects are those of
  \<open>self.asrs\<close>, so the loop runs over that list and passes the others by.
\<close>

fun store_embeddings :: "requirement list \<Rightarrow> embedding list \<Rightarrow> requirement list" where
  "store_embeddings [] embeddings = []"
| "store_embeddings (r # rs) embeddings =
     (if condition_text r = ANY_CIRCUMSTANCES_CONDITION then r # store_embeddings rs embeddings
      else (case embeddings of
              [] \<Rightarrow> r # rs
            | e # es \<Rightarrow> r\<lparr>condition_embeddings := e\<rparr> # store_embeddings rs es))"

text \<open>
  The scan of the groups of the cluster for one requirement: one oracle call per group
  until the first group judged equivalent, to which the requirement is appended.
  \<open>None\<close> when no group matches; the second component counts the oracle calls.
\<close>

fun find_equivalent ::
  "equivalence_oracle \<Rightarrow> nat \<Rightarrow> requirement \<Rightarrow> condition_group list
     \<Rightarrow> condition_group list option \<times> nat" where
  "find_equivalent oracle k req [] = (None, k)"
| "find_equivalent oracle k req (cg # groups) =
     (if check_condition_equivalence oracle k (condition_text req) (nominal_condition cg)
      then (Some (cg\<lparr>requirements := requirements cg @ [req]\<rparr> # groups), Suc k)
      else (case find_equivalent oracle (Suc k) req groups of
              (None, k') \<Rightarrow> (None, k')
            | (Some groups', k') \<Rightarrow> (Some (cg # groups'), k')))"

fun group_cluster ::
  "equivalence_oracle \<Rightarrow> nat \<Rightarrow> condition_group list \<Rightarrow> requirement list
     \<Rightarrow> condition_group list \<times> nat" where
  "group_cluster oracle k cluster_groups [] = (cluster_groups, k)"
| "group_cluster oracle k cluster_groups (req # cluster_reqs) =
     (if cluster_groups = []
      then group_cluster oracle k
             [\<lparr>nominal_condition = condition_text req, requirements = [req]\<rparr>] cluster_reqs
      else (case find_equivalent oracle k req cluster_groups of
              (Some groups', k') \<Rightarrow> group_cluster oracle k' groups' cluster_reqs
            | (None, k') \<Rightarrow>
                group_cluster oracle k'
                  (cluster_groups @
                     [\<lparr>nominal_condition = condition_text req, requirements = [req]\<rparr>])
                  cluster_reqs))"

fun group_clusters ::
  "equivalence_oracle \<Rightarrow> nat \<Rightarrow> architect \<Rightarrow> requirement list list \<Rightarrow> architect \<times> nat" where
  "group_clusters oracle k self [] = (self, k)"
| "group_clusters oracle k self (cluster_reqs # clusters) =
     (case group_cluster oracle k [] cluster_reqs of
        (cluster_groups, k') \<Rightarrow>
          group_clusters oracle k'
            (self\<lparr>self_condition_groups := self_condition_groups self @ cluster_groups\<rparr>)
            clusters)"

definition generate_condition_groups ::
  "embedding_oracle \<Rightarrow> kmeans \<Rightarrow> equivalence_oracle \<Rightarrow> architect
     \<Rightarrow> error + architect \<times> nat" where
  "generate_condition_groups get_embeddings km oracle self =
     (let any_condition = ANY_CIRCUMSTANCES_CONDITION;
          reqs_without_conditions =
            filter (\<lambda>r. condition_text r = any_condition) (self_asrs self);
          self1 =
            (if reqs_without_conditions \<noteq> []
             then self\<lparr>self_condition_groups :=
                    self_condition_groups self @
                    [\<lparr>nominal_condition = any_condition,
                      requirements = reqs_without_conditions\<rparr>]\<rparr>
             else self)
      in if filter (\<lambda>r. condition_text r \<noteq> any_condition) (self_asrs self) = []
         then Inr (self1, 0)
         else
           (let conditions =
                  map condition_text
                    (filter (\<lambda>r. condition_text r \<noteq> any_condition) (self_asrs self));
                embeddings = get_embeddings conditions;
                self2 = self1\<lparr>self_asrs := store_embeddings (self_asrs self1) embeddings\<rparr>;
                reqs_with_conditions =
                  filter (\<lambda>r. condition_text r \<noteq> any_condition) (self_asrs self2);
                valid_embeddings = filter (\<lambda>e. e \<noteq> []) embeddings
            in if length valid_embeddings < 2
               then Inr (self2\<lparr>self_condition_groups :=
                            self_condition_groups self2 @
                            map (\<lambda>req. \<lparr>nominal_condition = condition_text req,
                                        requirements = [req]\<rparr>)
                                reqs_with_conditions\<rparr>, 0)
               else
                 (case cluster_conditions km valid_embeddings 20 30 of
                    Inl e \<Rightarrow> Inl e
                  | Inr cluster_assignments \<Rightarrow>
                      (let cluster_map = map_to_clusters reqs_with_conditions cluster_assignments
                       in Inr (group_clusters oracle 0 self2 (map snd cluster_map))))))"

section \<open>Optimization engine\<close>

text \<open>
  The score of a decision starts as \<open>float("-inf")\<close> in greedy mode and is an integer
  once a pattern has been selected.
\<close>

datatype pyscore = NegInf | Score int

record decision =
  arch_pattern_name :: string
  selected_pattern :: string
  score :: pyscore
  satisfied_qualities :: "(string \<times> int) list"
  unsatisfied_qualities :: "(string \<times> int) list"

text \<open>
  \<open>Matrix.get_rows_by_group\<close>: the loop over \<open>row_groups\<close>; the read
  \<open>self._rows[row_key]\<close> raises \<open>KeyError\<close> for a pattern that has a category and no
  row.
\<close>

fun rows_by_group_loop ::
  "matrix \<Rightarrow> string \<Rightarrow> (string \<times> string) list \<Rightarrow> (string, (string, int) dict) dict
     \<Rightarrow> error + (string, (string, int) dict) dict" where
  "rows_by_group_loop m group_name [] group_rows = Inr group_rows"
| "rows_by_group_loop m group_name ((row_key, row_group) # rest) group_rows =
     (if row_group = group_name
      then (case map_of (rows m) row_key of
              None \<Rightarrow> Inl KeyError
            | Some columns \<Rightarrow>
                rows_by_group_loop m group_name rest (dict_set group_rows row_key columns))
      else rows_by_group_loop m group_name rest group_rows)"

definition get_rows_by_group ::
  "matrix \<Rightarrow> string \<Rightarrow> error + (string, (string, int) dict) dict" where
  "get_rows_by_group m group_name = rows_by_group_loop m group_name (row_groups m) []"

text \<open>
  \<open>Matrix.get_all_groups\<close> builds the set of the categories, and both modes iterate
  it. The order in which the interpreter iterates a set is not specified, so it is a
  parameter: \<open>set_order vs\<close> is the order in which the set built from the values
  \<open>vs\<close> is iterated, the same elements without repetition.
\<close>

type_synonym set_order = "string list \<Rightarrow> string list"

definition iteration_order :: "set_order \<Rightarrow> bool" where
  "iteration_order set_order = (\<forall>vs. set (set_order vs) = set vs \<and> distinct (set_order vs))"

definition get_all_groups :: "set_order \<Rightarrow> matrix \<Rightarrow> string list" where
  "get_all_groups set_order m = set_order (map snd (row_groups m))"

text \<open>
  The objective coefficient of exact mode, which is also the score of its decisions:
  \<open>sum(columns.get(q, 0) * column_weights.get(q, 0) for q in desired_qualities)\<close>.
\<close>

definition row_score :: "string list \<Rightarrow> (string, int) dict \<Rightarrow> (string, int) dict \<Rightarrow> int" where
  "row_score desired_qualities column_weights columns =
     sum_list (map (\<lambda>q. dict_get columns q 0 * dict_get column_weights q 0) desired_qualities)"

subsection \<open>Greedy mode\<close>

text \<open>The loop over the columns of one row: row value, satisfied, unsatisfied.\<close>

definition scan_column ::
  "string list \<Rightarrow> (string, int) dict
     \<Rightarrow> int \<times> (string \<times> int) list \<times> (string \<times> int) list \<Rightarrow> string \<times> int
     \<Rightarrow> int \<times> (string \<times> int) list \<times> (string \<times> int) list" where
  "scan_column desired_qualities column_weights acc col =
     (case acc of (row_value, satisfied, unsatisfied) \<Rightarrow>
      case col of (col_name, col_value) \<Rightarrow>
        if col_name \<in> set desired_qualities
        then (row_value + col_value * dict_get column_weights col_name 0,
              if col_value > 0 then satisfied @ [(col_name, col_value)] else satisfied,
              if col_value > 0 then unsatisfied
              else if col_value < 0 then unsatisfied @ [(col_name, col_value)]
              else unsatisfied)
        else (row_value, satisfied, unsatisfied))"

definition scan_columns ::
  "string list \<Rightarrow> (string, int) dict \<Rightarrow> (string, int) dict
     \<Rightarrow> int \<times> (string \<times> int) list \<times> (string \<times> int) list" where
  "scan_columns desired_qualities column_weights columns =
     foldl (scan_column desired_qualities column_weights) (0, [], []) columns"

text \<open>\<open>row_value > decision.score\<close>, every integer being above \<open>float("-inf")\<close>.\<close>

definition exceeds :: "int \<Rightarrow> pyscore \<Rightarrow> bool" where
  "exceeds row_value s = (case s of NegInf \<Rightarrow> True | Score best \<Rightarrow> row_value > best)"

fun greedy_patterns ::
  "string list \<Rightarrow> (string, int) dict \<Rightarrow> decision \<Rightarrow> (string, (string, int) dict) dict
     \<Rightarrow> decision" where
  "greedy_patterns desired_qualities column_weights d [] = d"
| "greedy_patterns desired_qualities column_weights d ((pattern, columns) # rest) =
     (case scan_columns desired_qualities column_weights columns of
        (row_value, satisfied, unsatisfied) \<Rightarrow>
          if exceeds row_value (score d)
          then greedy_patterns desired_qualities column_weights
                 (d\<lparr>score := Score row_value, selected_pattern := pattern,
                    satisfied_qualities := satisfied, unsatisfied_qualities := unsatisfied\<rparr>)
                 rest
          else greedy_patterns desired_qualities column_weights d rest)"

fun greedy_groups ::
  "string list \<Rightarrow> matrix \<Rightarrow> (string, int) dict \<Rightarrow> string list \<Rightarrow> decision list
     \<Rightarrow> error + decision list" where
  "greedy_groups desired_qualities m column_weights [] decisions = Inr decisions"
| "greedy_groups desired_qualities m column_weights (group_name # groups) decisions =
     (case get_rows_by_group m group_name of
        Inl e \<Rightarrow> Inl e
      | Inr group_rows \<Rightarrow>
          greedy_groups desired_qualities m column_weights groups
            (decisions @
               [greedy_patterns desired_qualities column_weights
                  \<lparr>arch_pattern_name = group_name, selected_pattern = [], score = NegInf,
                   satisfied_qualities = [], unsatisfied_qualities = []\<rparr>
                  group_rows]))"

text \<open>\<open>_calculate_satisfaction_scores\<close>, shared by both modes.\<close>

definition add_satisfaction ::
  "(string, int) dict \<Rightarrow> (string, int) dict \<Rightarrow> string \<times> int \<Rightarrow> (string, int) dict" where
  "add_satisfaction column_weights satisfaction_scores col =
     (case col of (col_name, col_value) \<Rightarrow>
        dict_set satisfaction_scores col_name
          (dict_get satisfaction_scores col_name 0 + col_value * dict_get column_weights col_name 0))"

fun calculate_satisfaction_scores ::
  "matrix \<Rightarrow> (string, int) dict \<Rightarrow> decision list \<Rightarrow> (string, int) dict
     \<Rightarrow> error + (string, int) dict" where
  "calculate_satisfaction_scores m column_weights [] satisfaction_scores =
     Inr satisfaction_scores"
| "calculate_satisfaction_scores m column_weights (d # decisions) satisfaction_scores =
     (case get_rows_by_group m (arch_pattern_name d) of
        Inl e \<Rightarrow> Inl e
      | Inr group_rows \<Rightarrow>
          (case map_of group_rows (selected_pattern d) of
             None \<Rightarrow> calculate_satisfaction_scores m column_weights decisions satisfaction_scores
           | Some selected_row \<Rightarrow>
               calculate_satisfaction_scores m column_weights decisions
                 (foldl (add_satisfaction column_weights) satisfaction_scores selected_row)))"

definition greedy ::
  "set_order \<Rightarrow> string list \<Rightarrow> matrix \<Rightarrow> (string, int) dict
     \<Rightarrow> error + decision list \<times> (string, int) dict" where
  "greedy set_order desired_qualities m column_weights =
     (case greedy_groups desired_qualities m column_weights (get_all_groups set_order m) [] of
        Inl e \<Rightarrow> Inl e
      | Inr decisions \<Rightarrow>
          (case calculate_satisfaction_scores m column_weights decisions [] of
             Inl e \<Rightarrow> Inl e
           | Inr satisfaction_scores \<Rightarrow> Inr (decisions, satisfaction_scores)))"

subsection \<open>Exact mode\<close>

text \<open>
  The integer program handed to the solver: one variable in \<open>{0, 1}\<close> per row of the
  matrix, one constraint per category that the variables of its patterns sum to exactly
  1, and the objective coefficients, to be maximised. The solver is an external library:
  it is a parameter, \<open>None\<close> for a solver that could not be created; on a program it
  returns the values of the variables, or \<open>None\<close> when its status is not optimal.
\<close>

record ilp_problem =
  ilp_variables :: "string list"
  ilp_constraints :: "(string \<times> string list) list"
  ilp_objective :: "(string \<times> int) list"

type_synonym ilp_solution = "string \<Rightarrow> int"

type_synonym ilp_solver = "ilp_problem \<Rightarrow> ilp_solution option"

fun build_constraints :: "matrix \<Rightarrow> string list \<Rightarrow> error + (string \<times> string list) list" where
  "build_constraints m [] = Inr []"
| "build_constraints m (group_name # groups) =
     (case get_rows_by_group m group_name of
        Inl e \<Rightarrow> Inl e
      | Inr group_rows \<Rightarrow>
          (case build_constraints m groups of
             Inl e \<Rightarrow> Inl e
           | Inr constraints \<Rightarrow> Inr ((group_name, map fst group_rows) # constraints)))"

definition build_problem ::
  "set_order \<Rightarrow> string list \<Rightarrow> matrix \<Rightarrow> (string, int) dict \<Rightarrow> error + ilp_problem" where
  "build_problem set_order desired_qualities m column_weights =
     (case build_constraints m (get_all_groups set_order m) of
        Inl e \<Rightarrow> Inl e
      | Inr constraints \<Rightarrow>
          Inr \<lparr>ilp_variables = map fst (rows m),
               ilp_constraints = constraints,
               ilp_objective =
                 map (\<lambda>(pattern, columns).
                        (pattern, row_score desired_qualities column_weights columns))
                     (rows m)\<rparr>)"

text \<open>
  The extraction loop: in each category the first pattern whose variable has the value
  1 gives the decision; a category without such a pattern gives none.
\<close>

definition ilp_decision ::
  "string list \<Rightarrow> (string, int) dict \<Rightarrow> string \<Rightarrow> string \<times> (string, int) dict \<Rightarrow> decision" where
  "ilp_decision desired_qualities column_weights group_name row =
     (case row of (pattern, columns) \<Rightarrow>
        \<lparr>arch_pattern_name = group_name, selected_pattern = pattern,
         score = Score (row_score desired_qualities column_weights columns),
         satisfied_qualities =
           filter (\<lambda>(col_name, col_value). col_name \<in> set desired_qualities \<and> col_value > 0)
             columns,
         unsatisfied_qualities =
           filter (\<lambda>(col_name, col_value). col_name \<in> set desired_qualities \<and> col_value < 0)
             columns\<rparr>)"

fun extract_decisions ::
  "string list \<Rightarrow> matrix \<Rightarrow> (string, int) dict \<Rightarrow> ilp_solution \<Rightarrow> string list
     \<Rightarrow> error + decision list" where
  "extract_decisions desired_qualities m column_weights sol [] = Inr []"
| "extract_decisions desired_qualities m column_weights sol (group_name # groups) =
     (case get_rows_by_group m group_name of
        Inl e \<Rightarrow> Inl e
      | Inr group_rows \<Rightarrow>
          (case extract_decisions desired_qualities m column_weights sol groups of
             Inl e \<Rightarrow> Inl e
           | Inr decisions \<Rightarrow>
               Inr ((case find (\<lambda>(pattern, columns). sol pattern = 1) group_rows of
                       None \<Rightarrow> []
                     | Some row \<Rightarrow> [ilp_decision desired_qualities column_weights group_name row])
                    @ decisions)))"

definition ilp ::
  "set_order \<Rightarrow> ilp_solver option \<Rightarrow> string list \<Rightarrow> matrix \<Rightarrow> (string, int) dict
     \<Rightarrow> error + decision list \<times> (string, int) dict" where
  "ilp set_order solver desired_qualities m column_weights =
     (case solver of
        None \<Rightarrow> Inr ([], [])
      | Some solve \<Rightarrow>
          (case build_problem set_order desired_qualities m column_weights of
             Inl e \<Rightarrow> Inl e
           | Inr problem \<Rightarrow>
               (case solve problem of
                  None \<Rightarrow> Inr ([], [])
                | Some sol \<Rightarrow>
                    (case extract_decisions desired_qualities m column_weights sol
                            (get_all_groups set_order m) of
                       Inl e \<Rightarrow> Inl e
                     | Inr decisions \<Rightarrow>
                         (case calculate_satisfaction_scores m column_weights decisions [] of
                            Inl e \<Rightarrow> Inl e
                          | Inr satisfaction_scores \<Rightarrow> Inr (decisions, satisfaction_scores))))))"

text \<open>
  What the solver is trusted for: the values it returns are feasible for the program
  and no feasible assignment of 0 and 1 to the variables has a greater objective value.
\<close>

definition ilp_feasible :: "ilp_problem \<Rightarrow> ilp_solution \<Rightarrow> bool" where
  "ilp_feasible p sol =
     (list_all (\<lambda>v. sol v = 0 \<or> sol v = 1) (ilp_variables p) \<and>
      list_all (\<lambda>(name, vs). sum_list (map sol vs) = 1) (ilp_constraints p))"

definition ilp_value :: "ilp_problem \<Rightarrow> ilp_solution \<Rightarrow> int" where
  "ilp_value p sol = sum_list (map (\<lambda>(v, c). c * sol v) (ilp_objective p))"

fun ilp_candidates :: "string list \<Rightarrow> ilp_solution list" where
  "ilp_candidates [] = [\<lambda>v. 0]"
| "ilp_candidates (v # vs) =
     concat (map (\<lambda>f. [f(v := 0), f(v := 1)]) (ilp_candidates vs))"

definition ilp_optimal :: "ilp_problem \<Rightarrow> ilp_solution \<Rightarrow> bool" where
  "ilp_optimal p sol =
     (ilp_feasible p sol \<and>
      list_all (\<lambda>sol'. \<not> ilp_feasible p sol' \<or> ilp_value p sol' \<le> ilp_value p sol)
        (ilp_candidates (ilp_variables p)))"

text \<open>\<open>Concern.total_score\<close>: the sum of the decision scores.\<close>

definition add_score :: "pyscore \<Rightarrow> pyscore \<Rightarrow> pyscore" where
  "add_score a b =
     (case a of NegInf \<Rightarrow> NegInf
      | Score x \<Rightarrow> (case b of NegInf \<Rightarrow> NegInf | Score y \<Rightarrow> Score (x + y)))"

definition total_score :: "decision list \<Rightarrow> pyscore" where
  "total_score decisions = foldl add_score (Score 0) (map score decisions)"

definition score_le :: "pyscore \<Rightarrow> pyscore \<Rightarrow> bool" where
  "score_le a b =
     (case a of NegInf \<Rightarrow> True
      | Score x \<Rightarrow> (case b of NegInf \<Rightarrow> False | Score y \<Rightarrow> x \<le> y))"

section \<open>The stages in the words of the specification\<close>

subsection \<open>The parser\<close>

text \<open>
  Stripping: \<open>t\<close> is \<open>s\<close> without the characters of a class at both ends, that is,
  \<open>s\<close> is \<open>t\<close> between two runs of the class and \<open>t\<close> neither starts nor ends in
  the class.
\<close>

definition trimmed :: "(nat \<Rightarrow> bool) \<Rightarrow> pystr \<Rightarrow> pystr \<Rightarrow> bool" where
  "trimmed P s t =
     (\<exists>a b. s = a @ t @ b \<and> list_all P a \<and> list_all P b \<and>
            (t = [] \<or> (\<not> P (hd t) \<and> \<not> P (last t))))"

definition is_paren :: "nat \<Rightarrow> bool" where
  "is_paren c = (c = 40 \<or> c = 41)"

text \<open>
  The delimiter: close-paren, optional whitespace, comma, optional whitespace,
  open-paren. A text is split at its delimiters from the left: each piece ends where
  the first delimiter starts, and the last piece holds none.
\<close>

definition is_delimiter :: "pystr \<Rightarrow> bool" where
  "is_delimiter d =
     (\<exists>w1 w2. d = 41 # w1 @ 44 # w2 @ [40] \<and> list_all py_isspace w1 \<and> list_all py_isspace w2)"

definition starts_delimiter :: "pystr \<Rightarrow> bool" where
  "starts_delimiter u = (\<exists>d r. is_delimiter d \<and> u = d @ r)"

inductive delimiter_split :: "pystr \<Rightarrow> pystr list \<Rightarrow> bool" where
  last_piece:
    "(\<And>j. j < length s \<Longrightarrow> \<not> starts_delimiter (drop j s)) \<Longrightarrow> delimiter_split s [s]"
| next_piece:
    "is_delimiter d \<Longrightarrow>
     (\<And>j. j < length p \<Longrightarrow> \<not> starts_delimiter (drop j (p @ d @ rest))) \<Longrightarrow>
     delimiter_split rest pieces \<Longrightarrow>
     delimiter_split (p @ d @ rest) (p # pieces)"

text \<open>Splitting on commas: the pieces hold no comma, and joined by commas give the text.\<close>

fun py_join :: "nat \<Rightarrow> pystr list \<Rightarrow> pystr" where
  "py_join sep [] = []"
| "py_join sep [p] = p"
| "py_join sep (p # q # ps) = p @ sep # py_join sep (q # ps)"

definition comma_split :: "pystr \<Rightarrow> pystr list \<Rightarrow> bool" where
  "comma_split s pieces =
     (pieces \<noteq> [] \<and> py_join 44 pieces = s \<and> list_all (\<lambda>p. 44 \<notin> set p) pieces)"

text \<open>
  A token is cleaned of whitespace and then of stray parentheses. Of the cleaned
  tokens of a segment, those that \<open>int\<close> converts to an index in \<open>[1, n]\<close> are kept,
  each on its own and in order.
\<close>

definition clean_token :: "pystr \<Rightarrow> pystr \<Rightarrow> bool" where
  "clean_token tok c = (\<exists>a. trimmed py_isspace tok a \<and> trimmed is_paren a c)"

definition kept_indices :: "nat \<Rightarrow> pystr list \<Rightarrow> int list" where
  "kept_indices n cleaned =
     concat (map (\<lambda>c. case py_int c of
                         None \<Rightarrow> []
                       | Some idx \<Rightarrow> if 1 \<le> idx \<and> idx \<le> int n then [idx] else [])
                 cleaned)"

text \<open>
  The same notions as functions of the response: its segments, the tokens of a
  segment, the tokens that are valid for \<open>n\<close> condition groups, and the satisfiable
  group that the valid tokens of a segment name.
\<close>

definition response_segments :: "pystr \<Rightarrow> pystr list" where
  "response_segments response = re_split [] (py_strip_chars (codes ''()'') (py_strip response))"

definition segment_tokens :: "pystr \<Rightarrow> pystr list" where
  "segment_tokens seg = py_split 44 seg"

definition valid_token :: "nat \<Rightarrow> pystr \<Rightarrow> bool" where
  "valid_token n tok =
     (case token_value tok of None \<Rightarrow> False | Some idx \<Rightarrow> 1 \<le> idx \<and> idx \<le> int n)"

definition segment_group :: "condition_group list \<Rightarrow> pystr \<Rightarrow> satisfiable_group" where
  "segment_group cgs seg =
     \<lparr>condition_groups =
        map (\<lambda>tok. cgs ! nat (the (token_value tok) - 1))
          (filter (valid_token (length cgs)) (segment_tokens seg))\<rparr>"

definition parsed_groups :: "condition_group list \<Rightarrow> pystr \<Rightarrow> satisfiable_group list" where
  "parsed_groups cgs response =
     map (segment_group cgs)
       (filter (\<lambda>seg. list_ex (valid_token (length cgs)) (segment_tokens seg))
          (response_segments response))"

subsection \<open>The partitioner\<close>

text \<open>
  What one attempt of the retry loop yields when the stage starts without satisfiable
  groups: nothing when the oracle call raises, else the groups parsed from the response.
\<close>

definition attempt_yield :: "partition_oracle \<Rightarrow> architect \<Rightarrow> nat \<Rightarrow> satisfiable_group list" where
  "attempt_yield oracle self k =
     (case oracle k (map nominal_condition (self_condition_groups self)) of
        Inl e \<Rightarrow> []
      | Inr response \<Rightarrow>
          self_satisfiable_groups
            (parse_satisfiable_groups_response (self\<lparr>self_satisfiable_groups := []\<rparr>) response))"

subsection \<open>The optimizer\<close>

text \<open>
  A matrix as the loader builds it: the keys of each dictionary are distinct, and every
  pattern that has a category has a row (a pattern without a row makes
  \<open>get_rows_by_group\<close> raise, which the specification counts as a broken scoring table).
\<close>

definition wf_matrix :: "matrix \<Rightarrow> bool" where
  "wf_matrix m =
     (distinct (map fst (rows m)) \<and>
      distinct (map fst (row_groups m)) \<and>
      list_all (\<lambda>(pattern, columns). distinct (map fst columns)) (rows m) \<and>
      list_all (\<lambda>(pattern, group_name). pattern \<in> fst ` set (rows m)) (row_groups m))"

text \<open>The patterns of a category, and the row score of a pattern.\<close>

definition category_patterns :: "matrix \<Rightarrow> string \<Rightarrow> string list" where
  "category_patterns m group_name =
     map fst (filter (\<lambda>(pattern, g). g = group_name) (row_groups m))"

definition pattern_score :: "string list \<Rightarrow> (string, int) dict \<Rightarrow> matrix \<Rightarrow> string \<Rightarrow> int" where
  "pattern_score desired_qualities column_weights m pattern =
     row_score desired_qualities column_weights (dict_get (rows m) pattern [])"

text \<open>
  A decision selects a pattern of its category whose row score is the greatest of the
  category, and carries that score.
\<close>

definition maximal_in_category ::
  "string list \<Rightarrow> (string, int) dict \<Rightarrow> matrix \<Rightarrow> decision \<Rightarrow> bool" where
  "maximal_in_category desired_qualities column_weights m d =
     (selected_pattern d \<in> set (category_patterns m (arch_pattern_name d)) \<and>
      score d = Score (pattern_score desired_qualities column_weights m (selected_pattern d)) \<and>
      list_all (\<lambda>pattern. pattern_score desired_qualities column_weights m pattern
                           \<le> pattern_score desired_qualities column_weights m (selected_pattern d))
        (category_patterns m (arch_pattern_name d)))"

text \<open>
  The decision of greedy mode for one category of a well-formed matrix: the scan of its
  rows from the initial decision. The decision of exact mode for one category: built
  from the first row of the category whose variable has the value 1.
\<close>

definition greedy_decision ::
  "string list \<Rightarrow> (string, int) dict \<Rightarrow> matrix \<Rightarrow> string \<Rightarrow> decision" where
  "greedy_decision D W m g =
     greedy_patterns D W
       \<lparr>arch_pattern_name = g, selected_pattern = [], score = NegInf,
        satisfied_qualities = [], unsatisfied_qualities = []\<rparr>
       (map (\<lambda>p. (p, the (map_of (rows m) p))) (category_patterns m g))"

definition exact_decision ::
  "string list \<Rightarrow> (string, int) dict \<Rightarrow> matrix \<Rightarrow> ilp_solution \<Rightarrow> string \<Rightarrow> decision" where
  "exact_decision D W m sol g =
     ilp_decision D W g
       (the (find (\<lambda>(pattern, columns). sol pattern = 1)
               (map (\<lambda>p. (p, the (map_of (rows m) p))) (category_patterns m g))))"

text \<open>
  The matrix of the specification's example: two deployment patterns. The assignment
  that selects Monolith is the solution an exact solver returns for the desired
  qualities Performance Efficiency and Security.
\<close>

definition example_matrix :: matrix where
  "example_matrix =
     \<lparr>rows =
        [(''Monolith'', [(''Performance Efficiency'', 1), (''Security'', 1),
                         (''Maintainability'', - 1)]),
         (''Microservices'', [(''Performance Efficiency'', 0), (''Security'', 0),
                              (''Maintainability'', 1)])],
      row_groups = [(''Monolith'', ''Deployment''), (''Microservices'', ''Deployment'')]\<rparr>"

definition example_solution :: ilp_solution where
  "example_solution = (\<lambda>v. if v = ''Monolith'' then 1 else 0)"

text \<open>
  An exact solver for the programs of exact mode: among the assignments of 0 and 1 to the
  variables it returns a feasible one of greatest objective value, if there is one.
\<close>

fun best_candidate :: "ilp_problem \<Rightarrow> ilp_solution list \<Rightarrow> ilp_solution option" where
  "best_candidate p [] = None"
| "best_candidate p (s # ss) =
     (if ilp_feasible p s
      then (case best_candidate p ss of
              None \<Rightarrow> Some s
            | Some b \<Rightarrow> if ilp_value p b \<le> ilp_value p s then Some s else Some b)
      else best_candidate p ss)"

definition exhaustive_solver :: ilp_solver where
  "exhaustive_solver p = best_candidate p (ilp_candidates (ilp_variables p))"

section \<open>Properties of the string operations\<close>

text \<open>The whitespace class, code point by code point.\<close>

lemma py_isspace_iff:
  "py_isspace c =
     (c \<in> {9, 10, 11, 12, 13, 28, 29, 30, 31, 32, 133, 160, 5760, 8192, 8193, 8194, 8195,
            8196, 8197, 8198, 8199, 8200, 8201, 8202, 8232, 8233, 8239, 8287, 12288})"
  unfolding py_isspace_def by (simp only: insert_iff empty_iff) arith

lemma not_space_punctuation: "\<not> py_isspace 40" "\<not> py_isspace 41" "\<not> py_isspace 44"
  by (simp_all add: py_isspace_def)

text \<open>Stripping a class at both ends gives the trimmed text, and nothing else is.\<close>

lemma trimmed_strip: "trimmed P s (rev (dropWhile P (rev (dropWhile P s))))"
proof -
  define a where "a = takeWhile P s"
  define m where "m = dropWhile P s"
  define b where "b = rev (takeWhile P (rev m))"
  define t where "t = rev (dropWhile P (rev m))"
  have s: "s = a @ m" by (simp add: a_def m_def)
  have e: "takeWhile P (rev m) @ dropWhile P (rev m) = rev m" by simp
  have "t @ b = rev (takeWhile P (rev m) @ dropWhile P (rev m))"
    unfolding t_def b_def by (simp only: rev_append)
  then have m: "m = t @ b" unfolding e by simp
  have pa: "list_all P a" by (auto simp: a_def list_all_iff dest: set_takeWhileD)
  have pb: "list_all P b" by (auto simp: b_def list_all_iff dest: set_takeWhileD)
  have ends: "\<not> P (hd t) \<and> \<not> P (last t)" if ne: "t \<noteq> []"
  proof -
    have d: "dropWhile P (rev m) \<noteq> []" using ne by (simp add: t_def)
    have "last t = hd (dropWhile P (rev m))" using d by (simp add: t_def last_rev)
    then have l: "\<not> P (last t)" using d hd_dropWhile [of P "rev m"] by simp
    have mne: "m \<noteq> []" using ne m by simp
    have "hd t = hd m" using ne m by simp
    then have "\<not> P (hd t)" using mne hd_dropWhile [of P s] by (simp add: m_def)
    with l show ?thesis by simp
  qed
  have "s = a @ t @ b" using s m by simp
  then show ?thesis
    unfolding trimmed_def t_def [symmetric] m_def [symmetric]
    using pa pb ends by blast
qed

lemma trimmed_unique:
  assumes "trimmed P s t"
  shows "rev (dropWhile P (rev (dropWhile P s))) = t"
proof -
  from assms obtain a b where s: "s = a @ t @ b" and pa: "list_all P a" and pb: "list_all P b"
    and ends: "t = [] \<or> (\<not> P (hd t) \<and> \<not> P (last t))"
    by (auto simp: trimmed_def)
  have da: "dropWhile P (a @ u) = dropWhile P u" for u
    by (rule dropWhile_append2) (use pa in \<open>simp add: list_all_iff\<close>)
  have db: "dropWhile P (rev b @ u) = dropWhile P u" for u
    by (rule dropWhile_append2) (use pb in \<open>simp add: list_all_iff\<close>)
  show ?thesis
  proof (cases "t = []")
    case True
    have e0: "dropWhile P b = []"
      using pb by (simp add: dropWhile_eq_Nil_conv list_all_iff)
    have e1: "dropWhile P s = []" unfolding s True by (simp only: append_Nil da e0)
    show ?thesis unfolding e1 True by simp
  next
    case False
    then have h: "\<not> P (hd t)" and l: "\<not> P (last t)" using ends by simp_all
    have 1: "dropWhile P (t @ b) = t @ b" using False h by (cases t) simp_all
    have "rev t \<noteq> []" "\<not> P (hd (rev t))" using False l by (simp_all add: hd_rev)
    then have 2: "dropWhile P (rev t) = rev t" by (cases "rev t") simp_all
    show ?thesis by (simp add: s da 1 db 2)
  qed
qed

lemma py_strip_trimmed: "trimmed py_isspace s t = (py_strip s = t)"
  unfolding py_strip_def using trimmed_strip trimmed_unique by blast

lemma paren_chars: "(\<lambda>c. c \<in> set (codes ''()'')) = is_paren"
  by (rule ext) (auto simp: codes_def is_paren_def)

lemma py_strip_chars_trimmed: "trimmed is_paren s t = (py_strip_chars (codes ''()'') s = t)"
  unfolding py_strip_chars_def paren_chars using trimmed_strip trimmed_unique by blast

lemma clean_token_iff:
  "clean_token tok c = (py_strip_chars (codes ''()'') (py_strip tok) = c)"
  by (auto simp: clean_token_def py_strip_trimmed py_strip_chars_trimmed)

text \<open>Splitting on a separator: the pieces joined by the separator, and no other list.\<close>

lemma py_split_nonempty: "py_split sep s \<noteq> []"
  by (induction s) (auto split: list.splits)

lemma py_join_Cons: "ps \<noteq> [] \<Longrightarrow> py_join sep (p # ps) = p @ sep # py_join sep ps"
  by (cases ps) simp_all

lemma py_join_split: "py_join sep (py_split sep s) = s"
proof (induction s)
  case Nil
  show ?case by simp
next
  case (Cons c s)
  show ?case
  proof (cases "c = sep")
    case True
    then show ?thesis using Cons.IH by (simp add: py_join_Cons py_split_nonempty)
  next
    case False
    obtain p ps where sp: "py_split sep s = p # ps"
      using py_split_nonempty [of sep s] by (cases "py_split sep s") auto
    show ?thesis
      using False Cons.IH by (cases ps) (simp_all add: sp)
  qed
qed

lemma py_split_pieces: "p \<in> set (py_split sep s) \<Longrightarrow> sep \<notin> set p"
proof (induction s arbitrary: p)
  case Nil
  then show ?case by simp
next
  case (Cons c s)
  then show ?case by (auto split: if_splits list.splits)
qed

lemma py_split_single: "sep \<notin> set p \<Longrightarrow> py_split sep p = [p]"
  by (induction p) auto

lemma py_split_append: "sep \<notin> set p \<Longrightarrow> py_split sep (p @ sep # r) = p # py_split sep r"
  by (induction p) auto

lemma py_split_join:
  "ps \<noteq> [] \<Longrightarrow> list_all (\<lambda>p. sep \<notin> set p) ps \<Longrightarrow> py_split sep (py_join sep ps) = ps"
proof (induction sep ps rule: py_join.induct)
  case (1 sep)
  then show ?case by simp
next
  case (2 sep p)
  then show ?case by (simp add: py_split_single)
next
  case (3 sep p q ps)
  then show ?case by (simp add: py_split_append)
qed

lemma comma_split_iff: "comma_split s pieces = (py_split 44 s = pieces)"
proof
  assume "comma_split s pieces"
  then show "py_split 44 s = pieces"
    using py_split_join [of pieces 44] by (auto simp: comma_split_def)
next
  assume "py_split 44 s = pieces"
  then show "comma_split s pieces"
    using py_split_nonempty [of 44 s] py_join_split [of 44 s] py_split_pieces [of _ 44 s]
    by (auto simp: comma_split_def list_all_iff)
qed

text \<open>A match of the pattern at the start of a text is a delimiter at its start.\<close>

lemma match_delim_delimiter:
  assumes "is_delimiter d"
  shows "match_delim (d @ r) = Some r"
proof -
  from assms obtain w1 w2 where d: "d = 41 # w1 @ 44 # w2 @ [40]"
    and w1: "list_all py_isspace w1" and w2: "list_all py_isspace w2"
    by (auto simp: is_delimiter_def)
  have 1: "dropWhile py_isspace (w1 @ 44 # u) = 44 # u" for u
    using w1 not_space_punctuation by (simp add: list_all_iff dropWhile_append2)
  have 2: "dropWhile py_isspace (w2 @ 40 # u) = 40 # u" for u
    using w2 not_space_punctuation by (simp add: list_all_iff dropWhile_append2)
  show ?thesis
    by (simp add: d match_delim_def 1 2)
qed

lemma match_delim_Some:
  assumes "match_delim u = Some r"
  shows "\<exists>d. is_delimiter d \<and> u = d @ r"
proof -
  from assms obtain t where u: "u = 41 # t"
    by (cases u) (auto simp: match_delim_def split: if_splits)
  from assms u obtain r2 where t: "dropWhile py_isspace t = 44 # r2"
    by (cases "dropWhile py_isspace t") (auto simp: match_delim_def split: if_splits)
  from assms u t have r2: "dropWhile py_isspace r2 = 40 # r"
    by (cases "dropWhile py_isspace r2") (auto simp: match_delim_def split: if_splits)
  define w1 where "w1 = takeWhile py_isspace t"
  define w2 where "w2 = takeWhile py_isspace r2"
  have "t = w1 @ 44 # r2" using t takeWhile_dropWhile_id [of py_isspace t] by (simp add: w1_def)
  moreover have "r2 = w2 @ 40 # r"
    using r2 takeWhile_dropWhile_id [of py_isspace r2] by (simp add: w2_def)
  ultimately have "u = (41 # w1 @ 44 # w2 @ [40]) @ r" using u by simp
  moreover have "is_delimiter (41 # w1 @ 44 # w2 @ [40])"
    unfolding is_delimiter_def
    by (rule exI [of _ w1], rule exI [of _ w2])
       (auto simp: w1_def w2_def list_all_iff dest: set_takeWhileD)
  ultimately show ?thesis by blast
qed

lemma starts_delimiter_iff: "starts_delimiter u = (match_delim u \<noteq> None)"
proof
  assume "starts_delimiter u"
  then show "match_delim u \<noteq> None"
    by (auto simp: starts_delimiter_def match_delim_delimiter)
next
  assume "match_delim u \<noteq> None"
  then obtain r where "match_delim u = Some r" by auto
  from match_delim_Some [OF this] show "starts_delimiter u"
    by (auto simp: starts_delimiter_def)
qed

text \<open>The scan over a piece in which no delimiter starts.\<close>

lemma re_split_scan:
  "(\<And>j. j < length p \<Longrightarrow> \<not> starts_delimiter (drop j (p @ u))) \<Longrightarrow>
   re_split cur (p @ u) = re_split (rev p @ cur) u"
proof (induction p arbitrary: cur)
  case Nil
  show ?case by simp
next
  case (Cons c p)
  have "\<not> starts_delimiter (drop 0 ((c # p) @ u))" by (rule Cons.prems) simp
  then have none: "match_delim (c # p @ u) = None" by (simp add: starts_delimiter_iff)
  have rest: "\<not> starts_delimiter (drop j (p @ u))" if "j < length p" for j
    using Cons.prems [of "Suc j"] that by simp
  show ?case
    using Cons.IH [of "c # cur", OF rest] none by simp
qed

lemma delimiter_split_nonempty: "delimiter_split s pieces \<Longrightarrow> pieces \<noteq> []"
  by (induction rule: delimiter_split.induct) simp_all

lemma delimiter_split_unique:
  "delimiter_split s pieces \<Longrightarrow> re_split cur s = (rev cur @ hd pieces) # tl pieces"
proof (induction arbitrary: cur rule: delimiter_split.induct)
  case (last_piece s)
  have "re_split cur (s @ []) = re_split (rev s @ cur) []"
    by (rule re_split_scan) (use last_piece in simp)
  then show ?case by simp
next
  case (next_piece d p rest pieces)
  have scan: "re_split cur (p @ d @ rest) = re_split (rev p @ cur) (d @ rest)"
    by (rule re_split_scan) (rule next_piece.hyps(2))
  have m: "match_delim (d @ rest) = Some rest"
    using match_delim_delimiter [OF next_piece.hyps(1)] .
  obtain c cs where dc: "d @ rest = c # cs"
    using next_piece.hyps(1) by (auto simp: is_delimiter_def)
  have "re_split (rev p @ cur) (d @ rest) = rev (rev p @ cur) # re_split [] rest"
    using m unfolding dc by simp
  also have "re_split [] rest = hd pieces # tl pieces"
    using next_piece.IH [of "[]"] by simp
  also have "\<dots> = pieces"
    using delimiter_split_nonempty [OF next_piece.hyps(3)] by simp
  finally show ?case using scan by simp
qed

lemma re_split_delimiter_split:
  "(\<And>j. j < length cur \<Longrightarrow> \<not> starts_delimiter (drop j (rev cur @ s))) \<Longrightarrow>
   delimiter_split (rev cur @ s) (re_split cur s)"
proof (induction cur s rule: re_split.induct)
  case (1 cur)
  have "delimiter_split (rev cur) [rev cur]"
  proof (rule delimiter_split.last_piece)
    fix j assume "j < length (rev cur)"
    then show "\<not> starts_delimiter (drop j (rev cur))"
      using "1.prems" [of j] by simp
  qed
  then show ?case by simp
next
  case (2 cur c cs)
  show ?case
  proof (cases "match_delim (c # cs)")
    case None
    have "\<not> starts_delimiter (drop j (rev (c # cur) @ cs))" if "j < length (c # cur)" for j
    proof (cases "j < length cur")
      case True
      then show ?thesis using "2.prems" [of j] by simp
    next
      case False
      then have "j = length cur" using that by simp
      then show ?thesis using None by (simp add: starts_delimiter_iff)
    qed
    then have "delimiter_split (rev (c # cur) @ cs) (re_split (c # cur) cs)"
      by (rule "2.IH"(1) [OF None])
    then show ?thesis using None by simp
  next
    case (Some rest)
    from match_delim_Some [OF Some] obtain d where d: "is_delimiter d" "c # cs = d @ rest"
      by blast
    have "delimiter_split (rev [] @ rest) (re_split [] rest)"
      by (rule "2.IH"(2) [OF Some]) simp
    then have r: "delimiter_split rest (re_split [] rest)" by simp
    have "delimiter_split (rev cur @ d @ rest) (rev cur # re_split [] rest)"
      by (rule delimiter_split.next_piece [OF d(1) _ r]) (use "2.prems" d(2) in simp)
    then have "delimiter_split (rev cur @ c # cs) (rev cur # re_split [] rest)"
      unfolding d(2) [symmetric] .
    moreover have "re_split cur (c # cs) = rev cur # re_split [] rest"
      using Some by simp
    ultimately show ?thesis by (simp only:)
  qed
qed

lemma delimiter_split_iff: "delimiter_split s pieces = (re_split [] s = pieces)"
proof
  assume d: "delimiter_split s pieces"
  show "re_split [] s = pieces"
    using delimiter_split_unique [OF d, of "[]"] delimiter_split_nonempty [OF d] by simp
next
  assume "re_split [] s = pieces"
  then show "delimiter_split s pieces"
    using re_split_delimiter_split [of "[]" s] by simp
qed

text \<open>
  The operations at texts with whitespace, stray parentheses, signs, underscores,
  digits of another script and digit runs at the interpreter's limit.
\<close>

lemma decimal_value_ascii: "decimal_value 48 = Some 0" "decimal_value 49 = Some 1"
  "decimal_value 50 = Some 2" "decimal_value 51 = Some 3" "decimal_value 52 = Some 4"
  "decimal_value 57 = Some 9" "decimal_value 95 = None" "decimal_value 120 = None"
  "decimal_value 1633 = Some 1" "decimal_value 65305 = Some 9" "decimal_value 178 = None"
  by (simp_all add: decimal_value_def decimal_zeros_def)

lemma strip_examples:
  "py_strip [32, 9, 40, 49, 32, 50, 41, 10, 8195] = [40, 49, 32, 50, 41]"
  "py_strip [31, 49, 31] = [49]"
  "py_strip_chars (codes ''()'') (codes ''((1)2))'') = codes ''1)2''"
  "py_strip_chars (codes ''()'') (codes '' (1)'') = codes '' (1''"
  by (simp_all add: py_strip_def py_strip_chars_def py_isspace_def codes_def)

lemma split_examples:
  "py_split 44 (codes ''1,,2,'') = [codes ''1'', [], codes ''2'', []]"
  "py_split 44 [] = [[]]"
  "re_split [] (codes ''1,2) , ( 3),(4'') = [codes ''1,2'', codes '' 3'', codes ''4'']"
  "re_split [] (codes ''),(),('') = [[], [], []]"
  "re_split [] (codes ''1),2'') = [codes ''1),2'']"
  "re_split [] [] = [[]]"
  by (simp_all add: codes_def match_delim_def py_isspace_def)

lemma int_examples:
  "py_int (codes ''12'') = Some 12"
  "py_int (codes '' 7 '') = Some 7"
  "py_int (codes ''007'') = Some 7"
  "py_int (codes ''+3'') = Some 3"
  "py_int (codes ''-3'') = Some (- 3)"
  "py_int (codes ''1_0'') = Some 10"
  "py_int [1633, 1634] = Some 12"
  "py_int [160, 50, 8195] = Some 2"
  "py_int [31, 50] = None"
  "py_int (codes ''1__0'') = None"
  "py_int (codes ''_1'') = None"
  "py_int (codes ''1_'') = None"
  "py_int (codes ''+ 3'') = None"
  "py_int (codes ''1 2'') = None"
  "py_int (codes ''x'') = None"
  "py_int (codes ''1x'') = None"
  "py_int [] = None"
  by (simp_all add: py_int_def int_isspace_def py_isspace_def codes_def digits_value_def
      decimal_value_def decimal_zeros_def int_max_str_digits_def)

lemma digits_ok_zeros: "digits_ok (replicate (Suc n) 48)"
  by (induction n) (simp_all add: decimal_value_ascii)

lemma digits_value_zeros: "digits_value (replicate n 48) = 0"
proof -
  have "foldl (\<lambda>acc c. case decimal_value c of None \<Rightarrow> acc | Some d \<Rightarrow> acc * 10 + int d) 0
          (replicate n 48) = 0"
    by (induction n) (simp_all add: decimal_value_ascii)
  then show ?thesis by (simp add: digits_value_def)
qed

lemma int_digit_limit:
  "py_int (replicate 4300 48) = Some 0" "py_int (replicate 4301 48) = None"
proof -
  have sp: "\<not> int_isspace 48" by (simp add: int_isspace_def)
  have strip: "rev (dropWhile int_isspace (rev (dropWhile int_isspace (replicate n 48)))) =
                 replicate n 48" for n
    using sp by (simp add: dropWhile_replicate)
  have ok: "digits_ok (replicate 4300 48)"
    using digits_ok_zeros [of 4299] by simp
  show "py_int (replicate 4300 48) = Some 0"
    unfolding py_int_def strip
    by (simp add: ok digits_value_zeros int_max_str_digits_def)
  show "py_int (replicate 4301 48) = None"
    unfolding py_int_def strip
    by (simp add: int_max_str_digits_def)
qed

section \<open>Properties of the weight calculator\<close>

lemma dict_get_dict_set:
  "dict_get (dict_set d k v) k' dflt = (if k' = k then v else dict_get d k' dflt)"
  by (induction d) (auto simp: dict_get_def)

lemma map_fst_dict_set_known:
  "k \<in> fst ` set d \<Longrightarrow> map fst (dict_set d k v) = map fst d"
  by (induction d) force+

lemma map_fst_dict_set_new:
  "k \<notin> fst ` set d \<Longrightarrow> map fst (dict_set d k v) = map fst d @ [k]"
  by (induction d) auto

text \<open>
  C8. For a weight map whose values sum to a total other than 0, normalization keeps
  the keys and replaces each value \<open>v\<close> by the floor of \<open>v * 100 / total\<close>; for a
  weight map whose values sum to 0, the empty map included, it returns its input.
\<close>

theorem normalize_weights_floor:
  "(sum_list (map snd weights) \<noteq> 0 \<longrightarrow>
      map fst (normalize_weights weights) = map fst weights \<and>
      normalize_weights weights =
        map (\<lambda>(q, v). (q, \<lfloor>real_of_int (v * 100) / real_of_int (sum_list (map snd weights))\<rfloor>))
          weights) \<and>
   (sum_list (map snd weights) = 0 \<longrightarrow> normalize_weights weights = weights) \<and>
   normalize_weights [] = []"
proof -
  have fl: "\<And>v t. \<lfloor>real_of_int (v * 100) / real_of_int t\<rfloor> = (v * 100) div t"
    by (rule floor_divide_of_int_eq)
  show ?thesis
    by (auto simp: normalize_weights_def Let_def fl simp del: of_int_mult)
qed

theorem normalize_weights_floor_witness:
  "sum_list (map snd [(''Security'', 2::int), (''Usability'', 1)]) \<noteq> 0 \<and>
   normalize_weights [(''Security'', 2), (''Usability'', 1)] =
     [(''Security'', 66), (''Usability'', 33)] \<and>
   sum_list (map snd [(''Security'', 1::int), (''Usability'', -1)]) = 0 \<and>
   normalize_weights [(''Security'', 1), (''Usability'', -1)] =
     [(''Security'', 1), (''Usability'', -1)]"
proof -
  have a: "sum_list (map snd [(''Security'', 2::int), (''Usability'', 1)]) \<noteq> 0" by simp
  have b: "sum_list (map snd [(''Security'', 1::int), (''Usability'', -1)]) = 0" by simp
  have "normalize_weights [(''Security'', 2), (''Usability'', 1)] =
          [(''Security'', 66), (''Usability'', 33)]"
    using normalize_weights_floor [of "[(''Security'', 2), (''Usability'', 1)]"] a
    by (simp del: of_int_mult) 
  moreover have "normalize_weights [(''Security'', 1), (''Usability'', -1)] =
          [(''Security'', 1), (''Usability'', -1)]"
    using normalize_weights_floor [of "[(''Security'', 1), (''Usability'', -1)]"] b by simp
  ultimately show ?thesis using a b by simp
qed

text \<open>
  C7, as stated: with mode \<open>PROVIDED\<close> the caller's map is returned verbatim, the
  empty map included. The guard of the branch also asks the map to be non-empty, so an
  empty map is answered with the inferred weights of the satisfiable group.
\<close>

theorem provided_empty_counterexample:
  "calculate_quality_weights
     \<lparr>self_matrix = \<lparr>rows = [], row_groups = []\<rparr>, self_asrs = [],
      self_condition_groups = [], self_satisfiable_groups = []\<rparr>
     \<lparr>condition_groups =
        [\<lparr>nominal_condition = ''when offline'',
          requirements =
            [\<lparr>req_id = 1, description = ''Sync later'', is_architecturally_significant = True,
              quality_attributes = [''Security''], condition_text = ''when offline'',
              condition_embeddings = []\<rparr>]\<rparr>]\<rparr>
     PROVIDED (Some [])
   = [(''Security'', 1)] \<and>
   calculate_quality_weights
     \<lparr>self_matrix = \<lparr>rows = [], row_groups = []\<rparr>, self_asrs = [],
      self_condition_groups = [], self_satisfiable_groups = []\<rparr>
     \<lparr>condition_groups =
        [\<lparr>nominal_condition = ''when offline'',
          requirements =
            [\<lparr>req_id = 1, description = ''Sync later'', is_architecturally_significant = True,
              quality_attributes = [''Security''], condition_text = ''when offline'',
              condition_embeddings = []\<rparr>]\<rparr>]\<rparr>
     PROVIDED (Some [])
   \<noteq> []"
  by (simp add: calculate_quality_weights_def inferred_weights_def count_condition_group_def
      count_requirement_def count_quality_def dict_get_def)

text \<open>
  C7, amended. With mode \<open>PROVIDED\<close> and a map that is not empty, the weight
  calculator returns the caller's map verbatim, whatever its keys and whatever the
  matrix and the satisfiable group are; with an empty or absent map it returns the
  inferred weights of the satisfiable group.
\<close>

theorem provided_weights_verbatim:
  "(provided_weights \<noteq> [] \<longrightarrow>
      calculate_quality_weights self sg PROVIDED (Some provided_weights) = provided_weights) \<and>
   calculate_quality_weights self sg PROVIDED (Some []) = inferred_weights sg \<and>
   calculate_quality_weights self sg PROVIDED None = inferred_weights sg"
  by (simp add: calculate_quality_weights_def)

theorem provided_weights_verbatim_witness:
  "[(''Speed'', 7::int)] \<noteq> [] \<and>
   calculate_quality_weights
     \<lparr>self_matrix = \<lparr>rows = [], row_groups = []\<rparr>, self_asrs = [],
      self_condition_groups = [], self_satisfiable_groups = []\<rparr>
     \<lparr>condition_groups = []\<rparr> PROVIDED (Some [(''Speed'', 7)]) = [(''Speed'', 7)]"
  using provided_weights_verbatim
    [of "[(''Speed'', 7)]"
        "\<lparr>self_matrix = \<lparr>rows = [], row_groups = []\<rparr>, self_asrs = [],
          self_condition_groups = [], self_satisfiable_groups = []\<rparr>"
        "\<lparr>condition_groups = []\<rparr>"]
  by simp

text \<open>
  C6 at a matrix whose rows do not have the same columns (the loader leaves out a cell
  that is not an integer): with mode \<open>EQUALLY_IMPORTANT\<close> the loop over the rows stops
  after the first row, so a quality that is a column of a later row only gets no weight.
\<close>

theorem equally_important_first_row_only:
  "calculate_quality_weights
     \<lparr>self_matrix =
        \<lparr>rows = [(''Monolith'', [(''Performance Efficiency'', 1)]),
                 (''Microservices'', [(''Performance Efficiency'', 0), (''Maintainability'', 1)])],
         row_groups = [(''Monolith'', ''Deployment''), (''Microservices'', ''Deployment'')]\<rparr>,
      self_asrs = asrs, self_condition_groups = cgs, self_satisfiable_groups = sgs\<rparr>
     sg EQUALLY_IMPORTANT provided_weights
   = [(''Performance Efficiency'', 1)]"
  by (simp add: calculate_quality_weights_def equal_weights_def)

section \<open>Properties of the clustering engine\<close>

text \<open>
  C9. \<open>cluster_conditions\<close> returns the identity assignment \<open>[0, 1, ..., n - 1]\<close>
  whenever there are fewer than 2 vectors. With 2 or more vectors of one common
  length (the fixed length of the embedding oracle's vectors), it returns the identity
  assignment whenever \<open>max_k \<le> min_k\<close> for \<open>min_k = max(2, n div 10)\<close> and
  \<open>max_k = min(max_clusters, n div 5, n - 1)\<close>; K-Means is not called.
\<close>

theorem cluster_conditions_identity:
  "(length embeddings < 2 \<longrightarrow>
      cluster_conditions km embeddings max_clusters max_cluster_size =
        Inr (map int [0..<length embeddings])) \<and>
   (list_all (\<lambda>e. length e = length (hd embeddings)) embeddings \<and>
    min (min max_clusters (int (length embeddings) div 5)) (int (length embeddings) - 1)
      \<le> max 2 (int (length embeddings) div 10) \<longrightarrow>
      cluster_conditions km embeddings max_clusters max_cluster_size =
        Inr (map int [0..<length embeddings]))"
  by (auto simp: cluster_conditions_def np_array_def Let_def)

theorem cluster_conditions_identity_witness:
  "list_all (\<lambda>e. length e = length (hd [[1, 5], [2, 6], [3, 7::real]])) [[1, 5], [2, 6], [3, 7]] \<and>
   min (min 20 (int (length [[1, 5], [2, 6], [3, 7::real]]) div 5))
       (int (length [[1, 5], [2, 6], [3, 7::real]]) - 1)
     \<le> max 2 (int (length [[1, 5], [2, 6], [3, 7::real]]) div 10) \<and>
   cluster_conditions \<lparr>km_inertia = (\<lambda>k d. Inl ValueError), km_fit_predict = (\<lambda>k d. Inl ValueError)\<rparr>
     [[1, 5], [2, 6], [3, 7]] 20 30 = Inr [0, 1, 2] \<and>
   cluster_conditions \<lparr>km_inertia = (\<lambda>k d. Inl ValueError), km_fit_predict = (\<lambda>k d. Inl ValueError)\<rparr>
     [[1]] 20 30 = Inr [0]"
proof -
  let ?km = "\<lparr>km_inertia = (\<lambda>k d. Inl ValueError), km_fit_predict = (\<lambda>k d. Inl ValueError)\<rparr>"
  let ?e = "[[1, 5], [2, 6], [3, 7::real]]"
  have h1: "list_all (\<lambda>e. length e = length (hd ?e)) ?e" by simp
  have h2: "min (min 20 (int (length ?e) div 5)) (int (length ?e) - 1)
              \<le> max 2 (int (length ?e) div 10)"
    by simp
  have "cluster_conditions ?km ?e 20 30 = Inr (map int [0..<length ?e])"
    using cluster_conditions_identity [of ?e ?km 20 30] h1 h2 by blast
  moreover have "cluster_conditions ?km [[1]] 20 30 = Inr (map int [0..<length [[1::real]]])"
    using cluster_conditions_identity [of "[[1]]" ?km 20 30] by simp
  moreover have "map int [0..<length ?e] = [0, 1, 2]"
    by (simp add: upt_rec)
  moreover have "map int [0..<length [[1::real]]] = [0]"
    by (simp add: upt_rec)
  ultimately show ?thesis using h1 h2 by simp
qed

text \<open>
  The other outcome of the early part of \<open>cluster_conditions\<close>: two or more
  vectors of unequal length make the conversion to an array raise before the range of
  cluster counts is looked at.
\<close>

lemma cluster_conditions_ragged:
  "2 \<le> length embeddings \<Longrightarrow>
   \<not> list_all (\<lambda>e. length e = length (hd embeddings)) embeddings \<Longrightarrow>
   cluster_conditions km embeddings max_clusters max_cluster_size = Inl ValueError"
  by (auto simp: cluster_conditions_def np_array_def)

lemma cluster_conditions_ragged_example:
  "cluster_conditions km [[1], [2, 3]] 20 30 = Inl ValueError"
  by (simp add: cluster_conditions_def np_array_def)


section \<open>Properties of the condition grouper\<close>

text \<open>
  C3 at a run in which the embedding of the first of three condition texts fails. The
  two embeddings that are left are too few for K-Means, so \<open>cluster_conditions\<close>
  returns the assignment \<open>[0, 1]\<close> and raises nothing; \<open>map_to_clusters\<close> pairs it
  with the list of all three requirements and \<open>zip\<close> stops after two of them. The
  stage returns, and the third requirement, whose condition is not the sentinel, is in
  no condition group. (With fewer than two
  embeddings left the sibling branch gives every requirement a group of its own.)
\<close>

theorem empty_embedding_drops_requirement:
  "map_sum (\<lambda>e. e)
     (\<lambda>result. map (\<lambda>g. (nominal_condition g, map req_id (requirements g)))
                 (self_condition_groups (fst result)))
     (generate_condition_groups (\<lambda>texts. [[], [1], [2]]) km oracle
           \<lparr>self_matrix = m,
            self_asrs =
              [\<lparr>req_id = 1, description = ''Queue writes'', is_architecturally_significant = True,
                quality_attributes = [''Reliability''], condition_text = ''when offline'',
                condition_embeddings = []\<rparr>,
               \<lparr>req_id = 2, description = ''Push updates'', is_architecturally_significant = True,
                quality_attributes = [''Performance Efficiency''], condition_text = ''when online'',
                condition_embeddings = []\<rparr>,
               \<lparr>req_id = 3, description = ''Throttle reads'', is_architecturally_significant = True,
                quality_attributes = [''Reliability''], condition_text = ''during backup'',
                condition_embeddings = []\<rparr>],
            self_condition_groups = [], self_satisfiable_groups = []\<rparr>)
   = Inr [(''when offline'', [1]), (''when online'', [2])]"
  by (simp add: generate_condition_groups_def ANY_CIRCUMSTANCES_CONDITION_def Let_def
      cluster_conditions_def np_array_def map_to_clusters_def cluster_map_add_def dict_get_def
      numeral_2_eq_2)

section \<open>Properties of the partition-response parser\<close>

lemma parse_ids_filter:
  "parse_ids n toks ids =
     ids @ map (\<lambda>tok. the (token_value tok)) (filter (valid_token n) toks)"
  by (induction toks arbitrary: ids) (auto simp: valid_token_def split: option.splits)

lemma filter_empty_list_ex: "(filter P xs \<noteq> []) = list_ex P xs"
  by (induction xs) auto

lemma parse_groups_fields_ex:
  "\<exists>sgs. parse_groups self segs = self\<lparr>self_satisfiable_groups := sgs\<rparr>"
proof (induction segs arbitrary: self)
  case Nil
  show ?case by (rule exI [of _ "self_satisfiable_groups self"]) simp
next
  case (Cons seg segs)
  define ids where
    "ids = parse_ids (length (self_condition_groups self)) (py_split 44 seg) []"
  define self' where
    "self' = self\<lparr>self_satisfiable_groups :=
               self_satisfiable_groups self @
               [\<lparr>condition_groups = map (\<lambda>i. self_condition_groups self ! nat (i - 1)) ids\<rparr>]\<rparr>"
  show ?case
  proof (cases "ids = []")
    case True
    then have "parse_groups self (seg # segs) = parse_groups self segs"
      by (simp add: ids_def)
    then show ?thesis using Cons.IH [of self] by simp
  next
    case False
    then have "parse_groups self (seg # segs) = parse_groups self' segs"
      by (simp add: ids_def self'_def Let_def)
    moreover obtain sgs where "parse_groups self' segs = self'\<lparr>self_satisfiable_groups := sgs\<rparr>"
      using Cons.IH [of self'] by blast
    ultimately have "parse_groups self (seg # segs) = self\<lparr>self_satisfiable_groups := sgs\<rparr>"
      by (simp add: self'_def)
    then show ?thesis by blast
  qed
qed

lemma parse_groups_fields:
  "parse_groups self segs =
     self\<lparr>self_satisfiable_groups := self_satisfiable_groups (parse_groups self segs)\<rparr>"
proof -
  obtain sgs where e: "parse_groups self segs = self\<lparr>self_satisfiable_groups := sgs\<rparr>"
    using parse_groups_fields_ex by blast
  then have "self_satisfiable_groups (parse_groups self segs) = sgs" by simp
  with e show ?thesis by simp
qed

lemma parse_groups_condition_groups:
  "self_condition_groups (parse_groups self segs) = self_condition_groups self"
  by (subst parse_groups_fields) simp

lemma parse_groups_appends:
  "self_satisfiable_groups (parse_groups self segs) =
     self_satisfiable_groups self @
     map (segment_group (self_condition_groups self))
       (filter (\<lambda>seg. list_ex (valid_token (length (self_condition_groups self)))
                         (segment_tokens seg)) segs)"
proof (induction segs arbitrary: self)
  case Nil
  show ?case by simp
next
  case (Cons seg segs)
  have ids: "parse_ids (length (self_condition_groups self)) (py_split 44 seg) [] =
               map (\<lambda>tok. the (token_value tok))
                 (filter (valid_token (length (self_condition_groups self))) (segment_tokens seg))"
    by (simp add: parse_ids_filter segment_tokens_def)
  show ?case
  proof (cases "list_ex (valid_token (length (self_condition_groups self))) (segment_tokens seg)")
    case True
    then have ne: "filter (valid_token (length (self_condition_groups self))) (segment_tokens seg) \<noteq> []"
      by (simp add: filter_empty_list_ex)
    show ?thesis
      using True ne by (simp add: Let_def ids Cons.IH segment_group_def o_def)
  next
    case False
    then have e: "filter (valid_token (length (self_condition_groups self))) (segment_tokens seg) = []"
      using filter_empty_list_ex [of "valid_token (length (self_condition_groups self))" "segment_tokens seg"]
      by simp
    show ?thesis
      using False e by (simp add: Let_def ids Cons.IH)
  qed
qed

lemma parse_response_appends:
  "self_satisfiable_groups (parse_satisfiable_groups_response self response) =
     self_satisfiable_groups self @ parsed_groups (self_condition_groups self) response"
  by (simp add: parse_satisfiable_groups_response_def parse_groups_appends parsed_groups_def
      response_segments_def)

lemma parse_response_fields:
  "parse_satisfiable_groups_response self response =
     self\<lparr>self_satisfiable_groups :=
       self_satisfiable_groups self @ parsed_groups (self_condition_groups self) response\<rparr>"
  unfolding parse_response_appends [symmetric] parse_satisfiable_groups_response_def
  by (rule parse_groups_fields)

text \<open>From the relations of the specification to the loops of the parser.\<close>

lemma comma_splits_iff:
  "list_all2 comma_split segs tokss = (tokss = map (py_split 44) segs)"
proof (induction segs arbitrary: tokss)
  case Nil
  show ?case by auto
next
  case (Cons x xs)
  note IH = Cons.IH
  show ?case
  proof (cases tokss)
    case Nil
    then show ?thesis by simp
  next
    case (Cons y ys)
    have "list_all2 comma_split (x # xs) (y # ys) =
            (comma_split x y \<and> list_all2 comma_split xs ys)"
      by (rule list_all2_Cons)
    also have "\<dots> = ((py_split 44) x = y \<and> ys = map (py_split 44) xs)"
      by (simp only: IH [of ys] comma_split_iff [of x y]; auto)
    also have "\<dots> = (y # ys = map (py_split 44) (x # xs))"
      by auto
    finally show ?thesis by (simp only: Cons)
  qed
qed

lemma clean_tokens_iff:
  "list_all2 clean_token toks cs = (cs = map (\<lambda>tok. py_strip_chars (codes ''()'') (py_strip tok)) toks)"
proof (induction toks arbitrary: cs)
  case Nil
  show ?case by auto
next
  case (Cons x xs)
  note IH = Cons.IH
  show ?case
  proof (cases cs)
    case Nil
    then show ?thesis by simp
  next
    case (Cons y ys)
    have "list_all2 clean_token (x # xs) (y # ys) =
            (clean_token x y \<and> list_all2 clean_token xs ys)"
      by (rule list_all2_Cons)
    also have "\<dots> = ((\<lambda>tok. py_strip_chars (codes ''()'') (py_strip tok)) x = y \<and> ys = map (\<lambda>tok. py_strip_chars (codes ''()'') (py_strip tok)) xs)"
      by (simp only: IH [of ys] clean_token_iff [of x y]; auto)
    also have "\<dots> = (y # ys = map (\<lambda>tok. py_strip_chars (codes ''()'') (py_strip tok)) (x # xs))"
      by auto
    finally show ?thesis by (simp only: Cons)
  qed
qed

lemma clean_tokenss_iff:
  "list_all2 (list_all2 clean_token) tokss cleanss = (cleanss = map (map (\<lambda>tok. py_strip_chars (codes ''()'') (py_strip tok))) tokss)"
proof (induction tokss arbitrary: cleanss)
  case Nil
  show ?case by auto
next
  case (Cons x xs)
  note IH = Cons.IH
  show ?case
  proof (cases cleanss)
    case Nil
    then show ?thesis by simp
  next
    case (Cons y ys)
    have "list_all2 (list_all2 clean_token) (x # xs) (y # ys) =
            ((list_all2 clean_token) x y \<and> list_all2 (list_all2 clean_token) xs ys)"
      by (rule list_all2_Cons)
    also have "\<dots> = ((map (\<lambda>tok. py_strip_chars (codes ''()'') (py_strip tok))) x = y \<and> ys = map (map (\<lambda>tok. py_strip_chars (codes ''()'') (py_strip tok))) xs)"
      by (simp only: IH [of ys] clean_tokens_iff [of x y]; auto)
    also have "\<dots> = (y # ys = map (map (\<lambda>tok. py_strip_chars (codes ''()'') (py_strip tok))) (x # xs))"
      by auto
    finally show ?thesis by (simp only: Cons)
  qed
qed

lemma kept_indices_tokens:
  "kept_indices n (map (\<lambda>tok. py_strip_chars (codes ''()'') (py_strip tok)) toks) =
     map (\<lambda>tok. the (token_value tok)) (filter (valid_token n) toks)"
  by (induction toks)
     (auto simp: kept_indices_def valid_token_def token_value_def split: option.splits)

lemma relations_are_the_parser:
  assumes "trimmed py_isspace response a" and "trimmed is_paren a core"
    and "delimiter_split core segs" and "list_all2 comma_split segs tokss"
    and "list_all2 (list_all2 clean_token) tokss cleanss"
  shows "response_segments response = segs"
    and "cleanss =
           map (\<lambda>seg. map (\<lambda>tok. py_strip_chars (codes ''()'') (py_strip tok)) (segment_tokens seg))
             segs"
proof -
  show "response_segments response = segs"
    using assms(1-3)
    by (simp add: response_segments_def py_strip_trimmed py_strip_chars_trimmed
        delimiter_split_iff)
  have t: "tokss = map (py_split 44) segs"
    using assms(4) by (simp add: comma_splits_iff)
  have "cleanss = map (map (\<lambda>tok. py_strip_chars (codes ''()'') (py_strip tok))) tokss"
    using assms(5) by (simp add: clean_tokenss_iff)
  then show "cleanss =
           map (\<lambda>seg. map (\<lambda>tok. py_strip_chars (codes ''()'') (py_strip tok)) (segment_tokens seg))
             segs"
    by (simp add: t segment_tokens_def o_def)
qed

lemma relations_exist:
  "\<exists>a core segs tokss cleanss.
     trimmed py_isspace response a \<and> trimmed is_paren a core \<and> delimiter_split core segs \<and>
     list_all2 comma_split segs tokss \<and> list_all2 (list_all2 clean_token) tokss cleanss"
proof -
  define a where "a = py_strip response"
  define core where "core = py_strip_chars (codes ''()'') a"
  define segs where "segs = re_split [] core"
  define tokss where "tokss = map (py_split 44) segs"
  define cleanss where
    "cleanss = map (map (\<lambda>tok. py_strip_chars (codes ''()'') (py_strip tok))) tokss"
  have "trimmed py_isspace response a" by (simp add: py_strip_trimmed a_def)
  moreover have "trimmed is_paren a core" by (simp add: py_strip_chars_trimmed core_def)
  moreover have "delimiter_split core segs" by (simp add: delimiter_split_iff segs_def)
  moreover have "list_all2 comma_split segs tokss"
    by (simp add: comma_splits_iff tokss_def)
  moreover have "list_all2 (list_all2 clean_token) tokss cleanss"
    by (simp add: clean_tokenss_iff cleanss_def)
  ultimately show ?thesis by blast
qed

lemma parse_response_kept:
  assumes "trimmed py_isspace response a" and "trimmed is_paren a core"
    and "delimiter_split core segs" and "list_all2 comma_split segs tokss"
    and "list_all2 (list_all2 clean_token) tokss cleanss"
  shows "self_satisfiable_groups (parse_satisfiable_groups_response self response) =
     self_satisfiable_groups self @
     map (\<lambda>ids. \<lparr>condition_groups = map (\<lambda>i. self_condition_groups self ! nat (i - 1)) ids\<rparr>)
       (filter (\<lambda>ids. ids \<noteq> [])
          (map (kept_indices (length (self_condition_groups self))) cleanss))"
proof -
  let ?n = "length (self_condition_groups self)"
  let ?clean = "\<lambda>tok. py_strip_chars (codes ''()'') (py_strip tok)"
  let ?K = "\<lambda>seg. kept_indices ?n (map ?clean (segment_tokens seg))"
  let ?G = "\<lambda>ids. \<lparr>condition_groups = map (\<lambda>i. self_condition_groups self ! nat (i - 1)) ids\<rparr>"
  note rel = relations_are_the_parser [OF assms]
  have K: "?K seg = map (\<lambda>tok. the (token_value tok)) (filter (valid_token ?n) (segment_tokens seg))"
    for seg
    by (rule kept_indices_tokens)
  have g: "segment_group (self_condition_groups self) seg = ?G (?K seg)" for seg
    by (simp add: K segment_group_def o_def)
  have v: "list_ex (valid_token ?n) (segment_tokens seg) = (?K seg \<noteq> [])" for seg
    by (simp add: K filter_empty_list_ex)
  have "map ?G (filter (\<lambda>ids. ids \<noteq> []) (map (kept_indices ?n) cleanss)) =
          map ?G (filter (\<lambda>ids. ids \<noteq> []) (map ?K segs))"
    by (simp add: rel(2) o_def)
  also have "\<dots> = map (\<lambda>seg. ?G (?K seg)) (filter (\<lambda>seg. ?K seg \<noteq> []) segs)"
    by (simp add: filter_map o_def)
  also have "\<dots> = parsed_groups (self_condition_groups self) response"
    by (simp add: parsed_groups_def rel(1) g v)
  finally show ?thesis by (simp add: parse_response_appends)
qed

text \<open>
  The parser evaluated stage by stage: the stripped response, its segments, their
  tokens, the cleaned tokens and the indices kept of each segment.
\<close>

lemma parse_response_stages:
  assumes "py_strip response = a" and "py_strip_chars (codes ''()'') a = core"
    and "re_split [] core = segs" and "map (py_split 44) segs = tokss"
    and "map (map (\<lambda>tok. py_strip_chars (codes ''()'') (py_strip tok))) tokss = cleanss"
    and "map (kept_indices (length (self_condition_groups self))) cleanss = idss"
  shows "self_satisfiable_groups (parse_satisfiable_groups_response self response) =
     self_satisfiable_groups self @
     map (\<lambda>ids. \<lparr>condition_groups = map (\<lambda>i. self_condition_groups self ! nat (i - 1)) ids\<rparr>)
       (filter (\<lambda>ids. ids \<noteq> []) idss)"
proof -
  have r1: "trimmed py_isspace response a"
    using assms(1) by (simp add: py_strip_trimmed)
  have r2: "trimmed is_paren a core"
    using assms(2) by (simp add: py_strip_chars_trimmed)
  have r3: "delimiter_split core segs"
    using assms(3) by (simp add: delimiter_split_iff)
  have r4: "list_all2 comma_split segs tokss"
    using assms(4) by (simp add: comma_splits_iff)
  have r5: "list_all2 (list_all2 clean_token) tokss cleanss"
    using assms(5) by (simp add: clean_tokenss_iff)
  show ?thesis
    unfolding assms(6) [symmetric] by (rule parse_response_kept [OF r1 r2 r3 r4 r5])
qed

lemmas python_evaluation =
  codes_def py_strip_def py_strip_chars_def py_isspace_def match_delim_def kept_indices_def
  py_int_def int_isspace_def digits_value_def decimal_value_def decimal_zeros_def
  int_max_str_digits_def
text \<open>
  C4. Against four condition groups the response \<open>(1,2),(3,4)\<close> gives two satisfiable
  groups, of the groups 1 and 2 and of the groups 3 and 4, also when it comes with
  whitespace and an outer pair of parentheses; in \<open>(1,x,9,2),(0,-3),(4,four)\<close> the
  tokens \<open>x\<close>, \<open>9\<close>, \<open>0\<close>, \<open>-3\<close> and \<open>four\<close> are left out one by one and the
  segment without a valid token gives no group. In \<open>1,(S2)\<close>, with \<open>S\<close> the
  separator 0x1F that \<open>strip\<close> takes for whitespace and \<open>int\<close> does not, the
  second token is left out; in \<open>(D , +1)\<close>, with \<open>D\<close> the Arabic-Indic digit two,
  both tokens are kept. For any response: strip whitespace and then parentheses, split
  at the delimiters, split each segment on commas, clean each token of whitespace and
  stray parentheses; such a decomposition exists, and the groups appended are, segment
  by segment and in order, the condition groups named by the cleaned tokens that
  \<open>int\<close> converts to an index in \<open>[1, n]\<close>, a segment without such a token giving
  none. A response without any such token appends nothing.
\<close>

theorem parse_response_tokens:
  "self_satisfiable_groups
     (parse_satisfiable_groups_response
        \<lparr>self_matrix = m, self_asrs = asrs, self_condition_groups = [g1, g2, g3, g4],
         self_satisfiable_groups = []\<rparr> (codes ''(1,2),(3,4)''))
     = [\<lparr>condition_groups = [g1, g2]\<rparr>, \<lparr>condition_groups = [g3, g4]\<rparr>] \<and>
   self_satisfiable_groups
     (parse_satisfiable_groups_response
        \<lparr>self_matrix = m, self_asrs = asrs, self_condition_groups = [g1, g2, g3, g4],
         self_satisfiable_groups = []\<rparr> (codes '' ((1, 2 ), ( 3,4)) ''))
     = [\<lparr>condition_groups = [g1, g2]\<rparr>, \<lparr>condition_groups = [g3, g4]\<rparr>] \<and>
   self_satisfiable_groups
     (parse_satisfiable_groups_response
        \<lparr>self_matrix = m, self_asrs = asrs, self_condition_groups = [g1, g2, g3, g4],
         self_satisfiable_groups = []\<rparr> (codes ''(1,x,9,2),(0,-3),(4,four)''))
     = [\<lparr>condition_groups = [g1, g2]\<rparr>, \<lparr>condition_groups = [g4]\<rparr>] \<and>
   self_satisfiable_groups
     (parse_satisfiable_groups_response
        \<lparr>self_matrix = m, self_asrs = asrs, self_condition_groups = [g1, g2],
         self_satisfiable_groups = []\<rparr> [49, 44, 40, 31, 50, 41])
     = [\<lparr>condition_groups = [g1]\<rparr>] \<and>
   self_satisfiable_groups
     (parse_satisfiable_groups_response
        \<lparr>self_matrix = m, self_asrs = asrs, self_condition_groups = [g1, g2],
         self_satisfiable_groups = []\<rparr> [40, 1634, 32, 44, 32, 43, 49, 41])
     = [\<lparr>condition_groups = [g2, g1]\<rparr>] \<and>
   (\<exists>a core segs tokss cleanss.
      trimmed py_isspace response a \<and> trimmed is_paren a core \<and> delimiter_split core segs \<and>
      list_all2 comma_split segs tokss \<and> list_all2 (list_all2 clean_token) tokss cleanss) \<and>
   (trimmed py_isspace response a \<and> trimmed is_paren a core \<and> delimiter_split core segs \<and>
    list_all2 comma_split segs tokss \<and> list_all2 (list_all2 clean_token) tokss cleanss \<longrightarrow>
      self_satisfiable_groups (parse_satisfiable_groups_response self response) =
        self_satisfiable_groups self @
        map (\<lambda>ids. \<lparr>condition_groups =
                      map (\<lambda>i. self_condition_groups self ! nat (i - 1)) ids\<rparr>)
          (filter (\<lambda>ids. ids \<noteq> [])
             (map (kept_indices (length (self_condition_groups self))) cleanss)) \<and>
      (list_all (\<lambda>cleaned. kept_indices (length (self_condition_groups self)) cleaned = [])
         cleanss \<longrightarrow>
       self_satisfiable_groups (parse_satisfiable_groups_response self response) =
         self_satisfiable_groups self))"
proof (intro conjI impI)
  show "self_satisfiable_groups
     (parse_satisfiable_groups_response
        \<lparr>self_matrix = m, self_asrs = asrs, self_condition_groups = [g1, g2, g3, g4],
         self_satisfiable_groups = []\<rparr> (codes ''(1,2),(3,4)''))
     = [\<lparr>condition_groups = [g1, g2]\<rparr>, \<lparr>condition_groups = [g3, g4]\<rparr>]"
    using parse_response_stages
      [where response = "codes ''(1,2),(3,4)''" and a = "codes ''(1,2),(3,4)''"
         and core = "codes ''1,2),(3,4''"
         and segs = "[codes ''1,2'', codes ''3,4'']"
         and tokss = "[[codes ''1'', codes ''2''], [codes ''3'', codes ''4'']]"
         and cleanss = "[[codes ''1'', codes ''2''], [codes ''3'', codes ''4'']]"
         and idss = "[[1, 2], [3, 4]]"
         and self = "\<lparr>self_matrix = m, self_asrs = asrs,
           self_condition_groups = [g1, g2, g3, g4], self_satisfiable_groups = []\<rparr>"]
    by (simp add: python_evaluation)
next
  show "self_satisfiable_groups
     (parse_satisfiable_groups_response
        \<lparr>self_matrix = m, self_asrs = asrs, self_condition_groups = [g1, g2, g3, g4],
         self_satisfiable_groups = []\<rparr> (codes '' ((1, 2 ), ( 3,4)) ''))
     = [\<lparr>condition_groups = [g1, g2]\<rparr>, \<lparr>condition_groups = [g3, g4]\<rparr>]"
    using parse_response_stages
      [where response = "codes '' ((1, 2 ), ( 3,4)) ''" and a = "codes ''((1, 2 ), ( 3,4))''"
         and core = "codes ''1, 2 ), ( 3,4''"
         and segs = "[codes ''1, 2 '', codes '' 3,4'']"
         and tokss = "[[codes ''1'', codes '' 2 ''], [codes '' 3'', codes ''4'']]"
         and cleanss = "[[codes ''1'', codes ''2''], [codes ''3'', codes ''4'']]"
         and idss = "[[1, 2], [3, 4]]"
         and self = "\<lparr>self_matrix = m, self_asrs = asrs,
           self_condition_groups = [g1, g2, g3, g4], self_satisfiable_groups = []\<rparr>"]
    by (simp add: python_evaluation)
next
  show "self_satisfiable_groups
     (parse_satisfiable_groups_response
        \<lparr>self_matrix = m, self_asrs = asrs, self_condition_groups = [g1, g2, g3, g4],
         self_satisfiable_groups = []\<rparr> (codes ''(1,x,9,2),(0,-3),(4,four)''))
     = [\<lparr>condition_groups = [g1, g2]\<rparr>, \<lparr>condition_groups = [g4]\<rparr>]"
    using parse_response_stages
      [where response = "codes ''(1,x,9,2),(0,-3),(4,four)''" and a = "codes ''(1,x,9,2),(0,-3),(4,four)''"
         and core = "codes ''1,x,9,2),(0,-3),(4,four''"
         and segs = "[codes ''1,x,9,2'', codes ''0,-3'', codes ''4,four'']"
         and tokss = "[[codes ''1'', codes ''x'', codes ''9'', codes ''2''], [codes ''0'', codes ''-3''], [codes ''4'', codes ''four'']]"
         and cleanss = "[[codes ''1'', codes ''x'', codes ''9'', codes ''2''], [codes ''0'', codes ''-3''], [codes ''4'', codes ''four'']]"
         and idss = "[[1, 2], [], [4]]"
         and self = "\<lparr>self_matrix = m, self_asrs = asrs,
           self_condition_groups = [g1, g2, g3, g4], self_satisfiable_groups = []\<rparr>"]
    by (simp add: python_evaluation)
next
  show "self_satisfiable_groups
     (parse_satisfiable_groups_response
        \<lparr>self_matrix = m, self_asrs = asrs, self_condition_groups = [g1, g2],
         self_satisfiable_groups = []\<rparr> [49, 44, 40, 31, 50, 41])
     = [\<lparr>condition_groups = [g1]\<rparr>]"
    using parse_response_stages
      [where response = "[49, 44, 40, 31, 50, 41]" and a = "[49, 44, 40, 31, 50, 41]"
         and core = "[49, 44, 40, 31, 50]"
         and segs = "[[49, 44, 40, 31, 50]]"
         and tokss = "[[[49], [40, 31, 50]]]"
         and cleanss = "[[[49], [31, 50]]]"
         and idss = "[[1]]"
         and self = "\<lparr>self_matrix = m, self_asrs = asrs,
           self_condition_groups = [g1, g2], self_satisfiable_groups = []\<rparr>"]
    by (simp add: python_evaluation)
next
  show "self_satisfiable_groups
     (parse_satisfiable_groups_response
        \<lparr>self_matrix = m, self_asrs = asrs, self_condition_groups = [g1, g2],
         self_satisfiable_groups = []\<rparr> [40, 1634, 32, 44, 32, 43, 49, 41])
     = [\<lparr>condition_groups = [g2, g1]\<rparr>]"
    using parse_response_stages
      [where response = "[40, 1634, 32, 44, 32, 43, 49, 41]"
         and a = "[40, 1634, 32, 44, 32, 43, 49, 41]"
         and core = "[1634, 32, 44, 32, 43, 49]"
         and segs = "[[1634, 32, 44, 32, 43, 49]]"
         and tokss = "[[[1634, 32], [32, 43, 49]]]"
         and cleanss = "[[[1634], [43, 49]]]"
         and idss = "[[2, 1]]"
         and self = "\<lparr>self_matrix = m, self_asrs = asrs,
           self_condition_groups = [g1, g2], self_satisfiable_groups = []\<rparr>"]
    by (simp add: python_evaluation)
next
  show "\<exists>a core segs tokss cleanss.
      trimmed py_isspace response a \<and> trimmed is_paren a core \<and> delimiter_split core segs \<and>
      list_all2 comma_split segs tokss \<and> list_all2 (list_all2 clean_token) tokss cleanss"
    by (rule relations_exist)
next
  assume rel: "trimmed py_isspace response a \<and> trimmed is_paren a core \<and>
    delimiter_split core segs \<and> list_all2 comma_split segs tokss \<and>
    list_all2 (list_all2 clean_token) tokss cleanss"
  then have r: "trimmed py_isspace response a" "trimmed is_paren a core"
    "delimiter_split core segs" "list_all2 comma_split segs tokss"
    "list_all2 (list_all2 clean_token) tokss cleanss"
    by simp_all
  show "self_satisfiable_groups (parse_satisfiable_groups_response self response) =
        self_satisfiable_groups self @
        map (\<lambda>ids. \<lparr>condition_groups =
                      map (\<lambda>i. self_condition_groups self ! nat (i - 1)) ids\<rparr>)
          (filter (\<lambda>ids. ids \<noteq> [])
             (map (kept_indices (length (self_condition_groups self))) cleanss))"
    by (rule parse_response_kept [OF r])
next
  assume rel: "trimmed py_isspace response a \<and> trimmed is_paren a core \<and>
    delimiter_split core segs \<and> list_all2 comma_split segs tokss \<and>
    list_all2 (list_all2 clean_token) tokss cleanss"
  assume none: "list_all (\<lambda>cleaned. kept_indices (length (self_condition_groups self)) cleaned = [])
         cleanss"
  have kept: "self_satisfiable_groups (parse_satisfiable_groups_response self response) =
        self_satisfiable_groups self @
        map (\<lambda>ids. \<lparr>condition_groups =
                      map (\<lambda>i. self_condition_groups self ! nat (i - 1)) ids\<rparr>)
          (filter (\<lambda>ids. ids \<noteq> [])
             (map (kept_indices (length (self_condition_groups self))) cleanss))"
  proof -
    from rel have r: "trimmed py_isspace response a" "trimmed is_paren a core"
      "delimiter_split core segs" "list_all2 comma_split segs tokss"
      "list_all2 (list_all2 clean_token) tokss cleanss"
      by simp_all
    show ?thesis
      by (rule parse_response_kept [OF r])
  qed
  have "filter (\<lambda>ids. ids \<noteq> [])
          (map (kept_indices (length (self_condition_groups self))) cleanss) = []"
    using none by (auto simp: filter_empty_conv list_all_iff)
  then show "self_satisfiable_groups (parse_satisfiable_groups_response self response) =
         self_satisfiable_groups self"
    using kept by simp
qed

theorem parse_response_tokens_witness:
  "trimmed py_isspace (codes '' ((1, x ),(7)) '') (codes ''((1, x ),(7))'') \<and>
   trimmed is_paren (codes ''((1, x ),(7))'') (codes ''1, x ),(7'') \<and>
   delimiter_split (codes ''1, x ),(7'') [codes ''1, x '', codes ''7''] \<and>
   list_all2 comma_split [codes ''1, x '', codes ''7'']
     [[codes ''1'', codes '' x ''], [codes ''7'']] \<and>
   list_all2 (list_all2 clean_token) [[codes ''1'', codes '' x ''], [codes ''7'']]
     [[codes ''1'', codes ''x''], [codes ''7'']] \<and>
   self_satisfiable_groups
     (parse_satisfiable_groups_response
        \<lparr>self_matrix = \<lparr>rows = [], row_groups = []\<rparr>, self_asrs = [],
         self_condition_groups =
           [\<lparr>nominal_condition = ''when offline'', requirements = []\<rparr>,
            \<lparr>nominal_condition = ''when online'', requirements = []\<rparr>],
         self_satisfiable_groups = []\<rparr> (codes '' ((1, x ),(7)) ''))
     = [\<lparr>condition_groups = [\<lparr>nominal_condition = ''when offline'', requirements = []\<rparr>]\<rparr>] \<and>
   self_satisfiable_groups
     (parse_satisfiable_groups_response
        \<lparr>self_matrix = \<lparr>rows = [], row_groups = []\<rparr>, self_asrs = [],
         self_condition_groups =
           [\<lparr>nominal_condition = ''when offline'', requirements = []\<rparr>,
            \<lparr>nominal_condition = ''when online'', requirements = []\<rparr>],
         self_satisfiable_groups = []\<rparr> (codes ''(x, 9)'')) = []"
proof -
  define self where
    "self = \<lparr>self_matrix = \<lparr>rows = [], row_groups = []\<rparr>, self_asrs = [],
         self_condition_groups =
           [\<lparr>nominal_condition = ''when offline'', requirements = []\<rparr>,
            \<lparr>nominal_condition = ''when online'', requirements = []\<rparr>],
         self_satisfiable_groups = []\<rparr>"
  have n: "length (self_condition_groups self) = 2" "self_satisfiable_groups self = []"
    "self_condition_groups self =
       [\<lparr>nominal_condition = ''when offline'', requirements = []\<rparr>,
        \<lparr>nominal_condition = ''when online'', requirements = []\<rparr>]"
    by (simp_all add: self_def)
  have r1: "trimmed py_isspace (codes '' ((1, x ),(7)) '') (codes ''((1, x ),(7))'')"
    by (simp add: py_strip_trimmed python_evaluation)
  have r2: "trimmed is_paren (codes ''((1, x ),(7))'') (codes ''1, x ),(7'')"
    unfolding py_strip_chars_trimmed by (simp add: python_evaluation)
  have r3: "delimiter_split (codes ''1, x ),(7'') [codes ''1, x '', codes ''7'']"
    by (simp add: delimiter_split_iff python_evaluation)
  have r4: "list_all2 comma_split [codes ''1, x '', codes ''7'']
     [[codes ''1'', codes '' x ''], [codes ''7'']]"
    by (simp add: comma_split_iff codes_def)
  have r5: "list_all2 (list_all2 clean_token) [[codes ''1'', codes '' x ''], [codes ''7'']]
     [[codes ''1'', codes ''x''], [codes ''7'']]"
    unfolding clean_tokenss_iff by (simp add: python_evaluation)
  have k1: "kept_indices (Suc (Suc 0)) [codes ''1'', codes ''x''] = [1]" "kept_indices (Suc (Suc 0)) [codes ''7''] = []"
    by (simp_all add: python_evaluation)
  have a1: "self_satisfiable_groups (parse_satisfiable_groups_response self (codes '' ((1, x ),(7)) ''))
     = [\<lparr>condition_groups = [\<lparr>nominal_condition = ''when offline'', requirements = []\<rparr>]\<rparr>]"
    using parse_response_tokens
      [where self = self and response = "codes '' ((1, x ),(7)) ''"
         and a = "codes ''((1, x ),(7))''" and core = "codes ''1, x ),(7''"
         and segs = "[codes ''1, x '', codes ''7'']"
         and tokss = "[[codes ''1'', codes '' x ''], [codes ''7'']]"
         and cleanss = "[[codes ''1'', codes ''x''], [codes ''7'']]"]
      r1 r2 r3 r4 r5
    by (simp add: n k1)
  have s1: "trimmed py_isspace (codes ''(x, 9)'') (codes ''(x, 9)'')"
    by (simp add: py_strip_trimmed python_evaluation)
  have s2: "trimmed is_paren (codes ''(x, 9)'') (codes ''x, 9'')"
    unfolding py_strip_chars_trimmed by (simp add: python_evaluation)
  have s3: "delimiter_split (codes ''x, 9'') [codes ''x, 9'']"
    by (simp add: delimiter_split_iff python_evaluation)
  have s4: "list_all2 comma_split [codes ''x, 9''] [[codes ''x'', codes '' 9'']]"
    by (simp add: comma_split_iff codes_def)
  have s5: "list_all2 (list_all2 clean_token) [[codes ''x'', codes '' 9'']]
              [[codes ''x'', codes ''9'']]"
    unfolding clean_tokenss_iff by (simp add: python_evaluation)
  have k2: "kept_indices (Suc (Suc 0)) [codes ''x'', codes ''9''] = []"
    by (simp add: python_evaluation)
  have a2: "self_satisfiable_groups (parse_satisfiable_groups_response self (codes ''(x, 9)'')) = []"
    using parse_response_tokens
      [where self = self and response = "codes ''(x, 9)''"
         and a = "codes ''(x, 9)''" and core = "codes ''x, 9''"
         and segs = "[codes ''x, 9'']"
         and tokss = "[[codes ''x'', codes '' 9'']]"
         and cleanss = "[[codes ''x'', codes ''9'']]"]
      s1 s2 s3 s4 s5
    by (simp add: n k2)
  show ?thesis
    using r1 r2 r3 r4 r5 a1 a2 unfolding self_def by blast
qed
lemma count_quality_get:
  "dict_get (count_quality weights q') q 0 = dict_get weights q 0 + (if q = q' then 1 else 0)"
  by (simp add: count_quality_def dict_get_dict_set)

lemma count_requirement_get:
  "dict_get (count_requirement weights req) q 0 =
     dict_get weights q 0 + int (count_list (quality_attributes req) q)"
proof -
  have "\<And>w. dict_get (foldl count_quality w qs) q 0 = dict_get w q 0 + int (count_list qs q)"
    for qs
    by (induction qs) (auto simp: count_quality_get)
  then show ?thesis by (simp add: count_requirement_def)
qed

lemma count_condition_group_get:
  "dict_get (count_condition_group weights cg) q 0 =
     dict_get weights q 0 +
     (\<Sum>req\<leftarrow>requirements cg. int (count_list (quality_attributes req) q))"
proof -
  have "\<And>w. dict_get (foldl count_requirement w rs) q 0 =
          dict_get w q 0 + (\<Sum>req\<leftarrow>rs. int (count_list (quality_attributes req) q))"
    for rs
    by (induction rs) (auto simp: count_requirement_get)
  then show ?thesis by (simp add: count_condition_group_def)
qed

lemma inferred_weights_get:
  "dict_get (inferred_weights sg) q 0 =
     (\<Sum>cg\<leftarrow>condition_groups sg.
        \<Sum>req\<leftarrow>requirements cg. int (count_list (quality_attributes req) q))"
proof -
  have "\<And>w. dict_get (foldl count_condition_group w cgs) q 0 =
          dict_get w q 0 +
          (\<Sum>cg\<leftarrow>cgs. \<Sum>req\<leftarrow>requirements cg. int (count_list (quality_attributes req) q))"
    for cgs
    by (induction cgs) (auto simp: count_condition_group_get)
  then show ?thesis by (simp add: inferred_weights_def dict_get_def)
qed


text \<open>
  C10. A valid index that a segment repeats puts its condition group into the
  satisfiable group once per occurrence: \<open>(1,1,2)\<close> gives the groups 1, 1 and 2, and in
  general a segment gives one member per valid token. The inferred weight of a quality
  is the number of its occurrences in the requirements of the members, member by member,
  so a condition group that is listed twice is counted twice.
\<close>

theorem repeated_index_counted_twice:
  "self_satisfiable_groups
     (parse_satisfiable_groups_response
        \<lparr>self_matrix = m, self_asrs = asrs, self_condition_groups = [g1, g2],
         self_satisfiable_groups = []\<rparr> (codes ''(1,1,2)''))
     = [\<lparr>condition_groups = [g1, g1, g2]\<rparr>] \<and>
   length (condition_groups (segment_group cgs seg)) =
     length (filter (valid_token (length cgs)) (segment_tokens seg)) \<and>
   calculate_quality_weights self sg INFERRED provided_weights = inferred_weights sg \<and>
   dict_get (inferred_weights sg) q 0 =
     (\<Sum>cg\<leftarrow>condition_groups sg.
        \<Sum>req\<leftarrow>requirements cg. int (count_list (quality_attributes req) q)) \<and>
   dict_get (calculate_quality_weights self \<lparr>condition_groups = [g1, g1, g2]\<rparr> INFERRED
               provided_weights) q 0 =
     2 * (\<Sum>req\<leftarrow>requirements g1. int (count_list (quality_attributes req) q)) +
     (\<Sum>req\<leftarrow>requirements g2. int (count_list (quality_attributes req) q))"
proof -
  have "self_satisfiable_groups
     (parse_satisfiable_groups_response
        \<lparr>self_matrix = m, self_asrs = asrs, self_condition_groups = [g1, g2],
         self_satisfiable_groups = []\<rparr> (codes ''(1,1,2)''))
     = [\<lparr>condition_groups = [g1, g1, g2]\<rparr>]"
    using parse_response_stages
      [where response = "codes ''(1,1,2)''" and a = "codes ''(1,1,2)''"
         and core = "codes ''1,1,2''" and segs = "[codes ''1,1,2'']"
         and tokss = "[[codes ''1'', codes ''1'', codes ''2'']]"
         and cleanss = "[[codes ''1'', codes ''1'', codes ''2'']]"
         and idss = "[[1, 1, 2]]"
         and self = "\<lparr>self_matrix = m, self_asrs = asrs,
           self_condition_groups = [g1, g2], self_satisfiable_groups = []\<rparr>"]
    by (simp add: python_evaluation)
  moreover have "length (condition_groups (segment_group cgs seg)) =
     length (filter (valid_token (length cgs)) (segment_tokens seg))"
    by (simp add: segment_group_def)
  moreover have inf: "calculate_quality_weights self sg' INFERRED provided_weights =
      inferred_weights sg'" for sg'
    by (simp add: calculate_quality_weights_def)
  ultimately show ?thesis
    by (simp add: inferred_weights_get)
qed


section \<open>Properties of the satisfiability partitioner\<close>

lemma parsed_groups_nonempty:
  "sg \<in> set (parsed_groups cgs response) \<Longrightarrow> condition_groups sg \<noteq> []"
proof -
  assume "sg \<in> set (parsed_groups cgs response)"
  then obtain seg where sg: "sg = segment_group cgs seg"
    and ex: "list_ex (valid_token (length cgs)) (segment_tokens seg)"
    by (auto simp: parsed_groups_def)
  from ex have "filter (valid_token (length cgs)) (segment_tokens seg) \<noteq> []"
    using filter_empty_list_ex [of "valid_token (length cgs)" "segment_tokens seg"] by blast
  then show ?thesis by (simp add: sg segment_group_def)
qed

lemma valid_token_index:
  "valid_token n tok \<Longrightarrow> nat (the (token_value tok) - 1) < n"
  by (auto simp: valid_token_def split: option.splits)

lemma parsed_groups_members:
  "sg \<in> set (parsed_groups cgs response) \<Longrightarrow> set (condition_groups sg) \<subseteq> set cgs"
  by (auto simp: parsed_groups_def segment_group_def intro!: nth_mem valid_token_index)

lemma attempt_yield_parsed:
  "attempt_yield oracle self k =
     (case oracle k (map nominal_condition (self_condition_groups self)) of
        Inl e \<Rightarrow> []
      | Inr response \<Rightarrow> parsed_groups (self_condition_groups self) response)"
  by (simp add: attempt_yield_def parse_response_appends split: sum.splits)

lemma partition_attempts_step:
  assumes "self_satisfiable_groups self = []"
  shows "partition_attempts oracle self k (Suc left) =
           (if attempt_yield oracle self k \<noteq> []
            then (self\<lparr>self_satisfiable_groups := attempt_yield oracle self k\<rparr>, Suc k)
            else partition_attempts oracle self (Suc k) left)"
proof (cases "oracle k (map nominal_condition (self_condition_groups self))")
  case (Inl e)
  then show ?thesis by (simp add: attempt_yield_parsed)
next
  case (Inr response)
  have same: "self\<lparr>self_satisfiable_groups := []\<rparr> = self"
    using assms by simp
  show ?thesis
  proof (cases "parsed_groups (self_condition_groups self) response = []")
    case True
    then show ?thesis
      using Inr assms by (simp add: attempt_yield_parsed parse_response_fields same)
  next
    case False
    then show ?thesis
      using Inr assms by (simp add: attempt_yield_parsed parse_response_fields)
  qed
qed

lemma partition_attempts_three:
  assumes "self_satisfiable_groups self = []"
  shows "partition_attempts oracle self 0 (Suc (Suc (Suc 0))) =
           (if attempt_yield oracle self 0 \<noteq> []
            then (self\<lparr>self_satisfiable_groups := attempt_yield oracle self 0\<rparr>, Suc 0)
            else if attempt_yield oracle self (Suc 0) \<noteq> []
            then (self\<lparr>self_satisfiable_groups := attempt_yield oracle self (Suc 0)\<rparr>,
                  Suc (Suc 0))
            else if attempt_yield oracle self (Suc (Suc 0)) \<noteq> []
            then (self\<lparr>self_satisfiable_groups := attempt_yield oracle self (Suc (Suc 0))\<rparr>,
                  Suc (Suc (Suc 0)))
            else (one_big_group self, Suc (Suc (Suc 0))))"
  by (simp only: partition_attempts_step [OF assms] partition_attempts.simps(1))

text \<open>
  C5. With two or more condition groups (and no satisfiable group yet, as at the start
  of an analysis) the stage calls the oracle at most 3 times; the first attempt that
  yields a satisfiable group ends the stage with the groups of that attempt, each of
  them non-empty; if none of the 3 attempts yields a group, the stage ends with the one
  satisfiable group of all condition groups in list order. The stage always returns its
  object: an exception of the oracle or the parser is none of its results.
\<close>

theorem partition_retry_then_fallback:
  assumes "2 \<le> length (self_condition_groups self)"
    and "self_satisfiable_groups self = []"
  shows "snd (generate_satisfiable_groups oracle self) \<le> 3 \<and>
    (\<forall>k<3. attempt_yield oracle self k \<noteq> [] \<and> (\<forall>j<k. attempt_yield oracle self j = []) \<longrightarrow>
        self_satisfiable_groups (fst (generate_satisfiable_groups oracle self)) =
          attempt_yield oracle self k \<and>
        snd (generate_satisfiable_groups oracle self) = Suc k \<and>
        list_all (\<lambda>sg. condition_groups sg \<noteq> []) (attempt_yield oracle self k)) \<and>
    ((\<forall>k<3. attempt_yield oracle self k = []) \<longrightarrow>
        self_satisfiable_groups (fst (generate_satisfiable_groups oracle self)) =
          [\<lparr>condition_groups = self_condition_groups self\<rparr>] \<and>
        snd (generate_satisfiable_groups oracle self) = 3) \<and>
    self_condition_groups (fst (generate_satisfiable_groups oracle self)) =
      self_condition_groups self"
proof -
  have gen: "generate_satisfiable_groups oracle self =
               partition_attempts oracle self 0 (Suc (Suc (Suc 0)))"
    using assms(1) by (simp add: generate_satisfiable_groups_def numeral_3_eq_3)
  have ne: "list_all (\<lambda>sg. condition_groups sg \<noteq> []) (attempt_yield oracle self k)" for k
    by (auto simp: attempt_yield_parsed list_all_iff parsed_groups_nonempty split: sum.splits)
  have k3: "(k < (3::nat)) = (k = 0 \<or> k = Suc 0 \<or> k = Suc (Suc 0))" for k
    by auto
  show ?thesis
    unfolding gen partition_attempts_three [OF assms(2)]
    using ne assms(2) by (auto simp: k3 one_big_group_def)
qed

theorem partition_retry_then_fallback_witness:
  "self_satisfiable_groups
     (fst (generate_satisfiable_groups
        (\<lambda>k conditions. if k = 0 then Inl OracleError else if k = 1 then Inr (codes ''none'') else Inr (codes ''((2),(1,2))''))
        \<lparr>self_matrix = \<lparr>rows = [], row_groups = []\<rparr>, self_asrs = [],
         self_condition_groups =
           [\<lparr>nominal_condition = ''when offline'', requirements = []\<rparr>,
            \<lparr>nominal_condition = ''when online'', requirements = []\<rparr>],
         self_satisfiable_groups = []\<rparr>))
   = [\<lparr>condition_groups = [\<lparr>nominal_condition = ''when online'', requirements = []\<rparr>]\<rparr>,
      \<lparr>condition_groups =
         [\<lparr>nominal_condition = ''when offline'', requirements = []\<rparr>,
          \<lparr>nominal_condition = ''when online'', requirements = []\<rparr>]\<rparr>] \<and>
   snd (generate_satisfiable_groups
        (\<lambda>k conditions. if k = 0 then Inl OracleError else if k = 1 then Inr (codes ''none'') else Inr (codes ''((2),(1,2))''))
        \<lparr>self_matrix = \<lparr>rows = [], row_groups = []\<rparr>, self_asrs = [],
         self_condition_groups =
           [\<lparr>nominal_condition = ''when offline'', requirements = []\<rparr>,
            \<lparr>nominal_condition = ''when online'', requirements = []\<rparr>],
         self_satisfiable_groups = []\<rparr>) = 3"
proof -
  define orc :: partition_oracle where
    "orc = (\<lambda>k conditions. if k = 0 then Inl OracleError else if k = 1 then Inr (codes ''none'')
                 else Inr (codes ''((2),(1,2))''))"
  define self where
    "self = \<lparr>self_matrix = \<lparr>rows = [], row_groups = []\<rparr>, self_asrs = [],
         self_condition_groups =
           [\<lparr>nominal_condition = ''when offline'', requirements = []\<rparr>,
            \<lparr>nominal_condition = ''when online'', requirements = []\<rparr>],
         self_satisfiable_groups = []\<rparr>"
  have h1: "2 \<le> length (self_condition_groups self)" by (simp add: self_def)
  have h2: "self_satisfiable_groups self = []" by (simp add: self_def)
  have y0: "attempt_yield orc self 0 = []"
    by (simp add: attempt_yield_parsed orc_def)
  have same: "self\<lparr>self_satisfiable_groups := []\<rparr> = self"
    by (simp add: self_def)
  have p1: "self_satisfiable_groups (parse_satisfiable_groups_response self (codes ''none'')) = []"
    using parse_response_stages
      [where response = "codes ''none''" and a = "codes ''none''" and core = "codes ''none''"
         and segs = "[codes ''none'']" and tokss = "[[codes ''none'']]"
         and cleanss = "[[codes ''none'']]" and idss = "[[]]" and self = self]
    by (simp add: python_evaluation self_def)
  have p2: "self_satisfiable_groups
       (parse_satisfiable_groups_response self (codes ''((2),(1,2))'')) =
     [\<lparr>condition_groups = [\<lparr>nominal_condition = ''when online'', requirements = []\<rparr>]\<rparr>,
      \<lparr>condition_groups =
         [\<lparr>nominal_condition = ''when offline'', requirements = []\<rparr>,
          \<lparr>nominal_condition = ''when online'', requirements = []\<rparr>]\<rparr>]"
    using parse_response_stages
      [where response = "codes ''((2),(1,2))''" and a = "codes ''((2),(1,2))''"
         and core = "codes ''2),(1,2''" and segs = "[codes ''2'', codes ''1,2'']"
         and tokss = "[[codes ''2''], [codes ''1'', codes ''2'']]"
         and cleanss = "[[codes ''2''], [codes ''1'', codes ''2'']]"
         and idss = "[[2], [1, 2]]" and self = self]
    by (simp add: python_evaluation self_def)
  have y1: "attempt_yield orc self (Suc 0) = []"
    by (simp add: attempt_yield_def orc_def same p1)
  have y2: "attempt_yield orc self (Suc (Suc 0)) =
     [\<lparr>condition_groups = [\<lparr>nominal_condition = ''when online'', requirements = []\<rparr>]\<rparr>,
      \<lparr>condition_groups =
         [\<lparr>nominal_condition = ''when offline'', requirements = []\<rparr>,
          \<lparr>nominal_condition = ''when online'', requirements = []\<rparr>]\<rparr>]"
    by (simp add: attempt_yield_def orc_def same p2)
  have k3: "(k < (3::nat)) = (k = 0 \<or> k = Suc 0 \<or> k = Suc (Suc 0))" for k
    by auto
  have k2: "(j < Suc (Suc 0)) = (j = 0 \<or> j = Suc 0)" for j
    by auto
  show ?thesis
    using partition_retry_then_fallback [OF h1 h2, of orc]
    unfolding orc_def [symmetric] self_def [symmetric]
    by (simp add: k3 k2 y0 y1 y2)
qed


text \<open>
  C2, as stated: every condition group is in at least one satisfiable group of the
  output and the group of the sentinel condition is in every one. The parser keeps
  what the oracle names: on the response \<open>(2)\<close> for the two condition groups
  "under any circumstances" and "when offline" the only satisfiable group holds the
  second condition group alone.
\<close>

theorem partition_coverage_counterexample:
  "self_satisfiable_groups
     (fst (generate_satisfiable_groups (\<lambda>k conditions. Inr (codes ''(2)''))
        \<lparr>self_matrix = \<lparr>rows = [], row_groups = []\<rparr>, self_asrs = [],
         self_condition_groups =
           [\<lparr>nominal_condition = ''under any circumstances'', requirements = []\<rparr>,
            \<lparr>nominal_condition = ''when offline'', requirements = []\<rparr>],
         self_satisfiable_groups = []\<rparr>))
   = [\<lparr>condition_groups = [\<lparr>nominal_condition = ''when offline'', requirements = []\<rparr>]\<rparr>] \<and>
   \<not> (\<forall>cg \<in> set [\<lparr>nominal_condition = ''under any circumstances'', requirements = []\<rparr>,
                     \<lparr>nominal_condition = ''when offline'', requirements = []\<rparr>].
        \<exists>sg \<in> set (self_satisfiable_groups
                      (fst (generate_satisfiable_groups (\<lambda>k conditions. Inr (codes ''(2)''))
                         \<lparr>self_matrix = \<lparr>rows = [], row_groups = []\<rparr>, self_asrs = [],
                          self_condition_groups =
                            [\<lparr>nominal_condition = ''under any circumstances'', requirements = []\<rparr>,
                             \<lparr>nominal_condition = ''when offline'', requirements = []\<rparr>],
                          self_satisfiable_groups = []\<rparr>))).
          cg \<in> set (condition_groups sg))"
proof -
  define self where
    "self = \<lparr>self_matrix = \<lparr>rows = [], row_groups = []\<rparr>, self_asrs = [],
         self_condition_groups =
           [\<lparr>nominal_condition = ''under any circumstances'', requirements = []\<rparr>,
            \<lparr>nominal_condition = ''when offline'', requirements = []\<rparr>],
         self_satisfiable_groups = []\<rparr>"
  have h: "self_satisfiable_groups self = []" by (simp add: self_def)
  have same: "self\<lparr>self_satisfiable_groups := []\<rparr> = self"
    by (simp add: self_def)
  have p0: "self_satisfiable_groups (parse_satisfiable_groups_response self (codes ''(2)'')) =
     [\<lparr>condition_groups = [\<lparr>nominal_condition = ''when offline'', requirements = []\<rparr>]\<rparr>]"
    using parse_response_stages
      [where response = "codes ''(2)''" and a = "codes ''(2)''" and core = "codes ''2''"
         and segs = "[codes ''2'']" and tokss = "[[codes ''2'']]"
         and cleanss = "[[codes ''2'']]" and idss = "[[2]]" and self = self]
    by (simp add: python_evaluation self_def)
  have y0: "attempt_yield (\<lambda>k conditions. Inr (codes ''(2)'')) self 0 =
     [\<lparr>condition_groups = [\<lparr>nominal_condition = ''when offline'', requirements = []\<rparr>]\<rparr>]"
    by (simp add: attempt_yield_def same p0)
  have gen: "generate_satisfiable_groups (\<lambda>k conditions. Inr (codes ''(2)'')) self =
               partition_attempts (\<lambda>k conditions. Inr (codes ''(2)'')) self 0 (Suc (Suc (Suc 0)))"
    by (simp add: generate_satisfiable_groups_def numeral_3_eq_3 self_def)
  have "self_satisfiable_groups (fst (generate_satisfiable_groups (\<lambda>k conditions. Inr (codes ''(2)'')) self))
     = [\<lparr>condition_groups = [\<lparr>nominal_condition = ''when offline'', requirements = []\<rparr>]\<rparr>]"
    unfolding gen partition_attempts_three [OF h] by (simp add: y0)
  then show ?thesis
    unfolding self_def by simp
qed

text \<open>
  C2, amended. Started without satisfiable groups, the stage returns satisfiable groups
  that are non-empty and hold condition groups of the input list only. When there are
  fewer than two condition groups, or none of the 3 attempts yields a group, the output
  is the one satisfiable group of all condition groups (no group for an empty list), so
  that every condition group, the sentinel's included, is in every satisfiable group.
  When an attempt yields groups, the output is what the parser reads from that response:
  per segment, the condition groups that the valid tokens name.
\<close>

theorem partition_output_shape:
  assumes "self_satisfiable_groups self = []"
  shows "(\<forall>sg \<in> set (self_satisfiable_groups (fst (generate_satisfiable_groups oracle self))).
            condition_groups sg \<noteq> [] \<and>
            set (condition_groups sg) \<subseteq> set (self_condition_groups self)) \<and>
    (length (self_condition_groups self) \<le> 1 \<or> (\<forall>k<3. attempt_yield oracle self k = []) \<longrightarrow>
       self_satisfiable_groups (fst (generate_satisfiable_groups oracle self)) =
         (if self_condition_groups self = [] then []
          else [\<lparr>condition_groups = self_condition_groups self\<rparr>])) \<and>
    (2 \<le> length (self_condition_groups self) \<and> (\<exists>k<3. attempt_yield oracle self k \<noteq> []) \<longrightarrow>
       (\<exists>k<3. \<exists>response.
          oracle k (map nominal_condition (self_condition_groups self)) = Inr response \<and>
          self_satisfiable_groups (fst (generate_satisfiable_groups oracle self)) =
            parsed_groups (self_condition_groups self) response))"
proof (cases "length (self_condition_groups self) \<le> 1")
  case True
  then show ?thesis
    using assms
    by (cases "self_condition_groups self")
       (auto simp: generate_satisfiable_groups_def one_big_group_def)
next
  case False
  then have two: "2 \<le> length (self_condition_groups self)" by simp
  then have ne: "self_condition_groups self \<noteq> []" by auto
  have gen: "generate_satisfiable_groups oracle self =
               partition_attempts oracle self 0 (Suc (Suc (Suc 0)))"
    using False by (simp add: generate_satisfiable_groups_def numeral_3_eq_3)
  have k3: "(k < (3::nat)) = (k = 0 \<or> k = Suc 0 \<or> k = Suc (Suc 0))" for k
    by auto
  have shape: "\<forall>sg \<in> set (attempt_yield oracle self k).
                 condition_groups sg \<noteq> [] \<and>
                 set (condition_groups sg) \<subseteq> set (self_condition_groups self)" for k
    by (auto simp: attempt_yield_parsed split: sum.splits
        dest: parsed_groups_nonempty parsed_groups_members [THEN subsetD])
  have resp: "attempt_yield oracle self k \<noteq> [] \<Longrightarrow>
                \<exists>response. oracle k (map nominal_condition (self_condition_groups self)) = Inr response \<and>
                  attempt_yield oracle self k = parsed_groups (self_condition_groups self) response"
    for k
    by (auto simp: attempt_yield_parsed split: sum.splits)
  let ?res = "self_satisfiable_groups (fst (generate_satisfiable_groups oracle self))"
  consider (a) "attempt_yield oracle self 0 \<noteq> []"
    | (b) "attempt_yield oracle self 0 = []" "attempt_yield oracle self (Suc 0) \<noteq> []"
    | (c) "attempt_yield oracle self 0 = []" "attempt_yield oracle self (Suc 0) = []"
          "attempt_yield oracle self (Suc (Suc 0)) \<noteq> []"
    | (d) "attempt_yield oracle self 0 = []" "attempt_yield oracle self (Suc 0) = []"
          "attempt_yield oracle self (Suc (Suc 0)) = []"
    by blast
  then show ?thesis
  proof cases
    case a
    have r: "?res = attempt_yield oracle self 0"
      unfolding gen partition_attempts_three [OF assms] using a by simp
    show ?thesis
      unfolding r using a shape [of 0] resp [OF a] False by (auto simp: k3)
  next
    case b
    have r: "?res = attempt_yield oracle self (Suc 0)"
      unfolding gen partition_attempts_three [OF assms] using b by simp
    show ?thesis
      unfolding r using b shape [of "Suc 0"] resp [OF b(2)] False by (auto simp: k3)
  next
    case c
    have r: "?res = attempt_yield oracle self (Suc (Suc 0))"
      unfolding gen partition_attempts_three [OF assms] using c by simp
    show ?thesis
      unfolding r using c shape [of "Suc (Suc 0)"] resp [OF c(3)] False by (auto simp: k3)
  next
    case d
    have r: "?res = [\<lparr>condition_groups = self_condition_groups self\<rparr>]"
      unfolding gen partition_attempts_three [OF assms] using d assms
      by (simp add: one_big_group_def)
    show ?thesis
      unfolding r using d ne False by (auto simp: k3)
  qed
qed

theorem partition_output_shape_witness:
  "self_satisfiable_groups
     (fst (generate_satisfiable_groups (\<lambda>k conditions. Inl OracleError)
        \<lparr>self_matrix = \<lparr>rows = [], row_groups = []\<rparr>, self_asrs = [],
         self_condition_groups =
           [\<lparr>nominal_condition = ''under any circumstances'', requirements = []\<rparr>,
            \<lparr>nominal_condition = ''when offline'', requirements = []\<rparr>],
         self_satisfiable_groups = []\<rparr>))
   = [\<lparr>condition_groups =
         [\<lparr>nominal_condition = ''under any circumstances'', requirements = []\<rparr>,
          \<lparr>nominal_condition = ''when offline'', requirements = []\<rparr>]\<rparr>]"
proof -
  define self where
    "self = \<lparr>self_matrix = \<lparr>rows = [], row_groups = []\<rparr>, self_asrs = [],
         self_condition_groups =
           [\<lparr>nominal_condition = ''under any circumstances'', requirements = []\<rparr>,
            \<lparr>nominal_condition = ''when offline'', requirements = []\<rparr>],
         self_satisfiable_groups = []\<rparr>"
  have h: "self_satisfiable_groups self = []" by (simp add: self_def)
  have y: "attempt_yield (\<lambda>k conditions. Inl OracleError) self k = []" for k
    by (simp add: attempt_yield_parsed)
  show ?thesis
    using partition_output_shape [OF h, of "\<lambda>k conditions. Inl OracleError"]
    unfolding self_def [symmetric]
    by (simp add: y) (simp add: self_def)
qed


section \<open>Properties of the optimization engine\<close>

lemma dict_set_new: "k \<notin> fst ` set d \<Longrightarrow> dict_set d k v = d @ [(k, v)]"
  by (induction d) auto

lemma rows_by_group_loop_wf:
  assumes "\<forall>p \<in> fst ` set rg. p \<in> fst ` set (rows m)"
    and "distinct (map fst rg)"
    and "fst ` set rg \<inter> fst ` set acc = {}"
  shows "rows_by_group_loop m g rg acc =
           Inr (acc @ map (\<lambda>p. (p, the (map_of (rows m) p)))
                        (map fst (filter (\<lambda>(pattern, g'). g' = g) rg)))"
  using assms
proof (induction rg arbitrary: acc)
  case Nil
  show ?case by simp
next
  case (Cons a rg)
  obtain p g' where a: "a = (p, g')" by (cases a)
  have inrows: "p \<in> fst ` set (rows m)" using Cons.prems(1) a by simp
  then obtain cols where cols: "map_of (rows m) p = Some cols"
    by (metis domD dom_map_of_conv_image_fst)
  have fresh: "p \<notin> fst ` set acc" using Cons.prems(3) a by auto
  have rest1: "\<forall>p \<in> fst ` set rg. p \<in> fst ` set (rows m)" using Cons.prems(1) by simp
  have rest2: "distinct (map fst rg)" using Cons.prems(2) by simp
  have pnot: "p \<notin> fst ` set rg" using Cons.prems(2) a by (simp add: image_iff)
  show ?case
  proof (cases "g' = g")
    case True
    have disj: "fst ` set rg \<inter> fst ` set (acc @ [(p, cols)]) = {}"
      using Cons.prems(3) pnot by auto
    show ?thesis
      using True a cols fresh Cons.IH [OF rest1 rest2 disj]
      by (simp add: dict_set_new)
  next
    case False
    have disj: "fst ` set rg \<inter> fst ` set acc = {}" using Cons.prems(3) by auto
    show ?thesis
      using False a Cons.IH [OF rest1 rest2 disj] by simp
  qed
qed

lemma get_rows_by_group_wf:
  assumes "wf_matrix m"
  shows "get_rows_by_group m g =
           Inr (map (\<lambda>p. (p, the (map_of (rows m) p))) (category_patterns m g))"
proof -
  have 1: "\<forall>p \<in> fst ` set (row_groups m). p \<in> fst ` set (rows m)"
    using assms by (auto simp: wf_matrix_def list_all_iff)
  have 2: "distinct (map fst (row_groups m))" using assms by (simp add: wf_matrix_def)
  show ?thesis
    unfolding get_rows_by_group_def category_patterns_def
    using rows_by_group_loop_wf [OF 1 2, of "[]" g] by simp
qed

lemma category_patterns_in_rows:
  assumes "wf_matrix m" and "p \<in> set (category_patterns m g)"
  shows "p \<in> fst ` set (rows m)"
  using assms by (auto simp: wf_matrix_def list_all_iff category_patterns_def)

lemma category_patterns_distinct:
  assumes "wf_matrix m"
  shows "distinct (category_patterns m g)"
  using assms by (simp add: wf_matrix_def category_patterns_def distinct_map_filter)

lemma category_patterns_unique:
  assumes "wf_matrix m" and "p \<in> set (category_patterns m g)"
    and "p \<in> set (category_patterns m h)"
  shows "g = h"
proof -
  have d: "distinct (map fst (row_groups m))" using assms(1) by (simp add: wf_matrix_def)
  have "(p, g) \<in> set (row_groups m)" "(p, h) \<in> set (row_groups m)"
    using assms(2,3) by (auto simp: category_patterns_def)
  then show ?thesis using d by (meson eq_key_imp_eq_value)
qed

lemma get_all_groups_set:
  assumes "iteration_order so"
  shows "set (get_all_groups so m) = snd ` set (row_groups m)"
    and "distinct (get_all_groups so m)"
  using assms by (simp_all add: get_all_groups_def iteration_order_def)

lemma category_patterns_nonempty:
  assumes "iteration_order so" and "g \<in> set (get_all_groups so m)"
  shows "category_patterns m g \<noteq> []"
proof -
  obtain p where "(p, g) \<in> set (row_groups m)"
    using assms(2) by (auto simp: get_all_groups_set(1) [OF assms(1)])
  then have "p \<in> set (category_patterns m g)"
    by (force simp: category_patterns_def)
  then show ?thesis by auto
qed

lemma rows_lookup:
  assumes "wf_matrix m" and "p \<in> fst ` set (rows m)"
  shows "(p, the (map_of (rows m) p)) \<in> set (rows m)"
    and "dict_get (rows m) p [] = the (map_of (rows m) p)"
proof -
  obtain cols where c: "map_of (rows m) p = Some cols"
    using assms(2) by (metis domD dom_map_of_conv_image_fst)
  then show "(p, the (map_of (rows m) p)) \<in> set (rows m)"
    by (simp add: map_of_SomeD)
  show "dict_get (rows m) p [] = the (map_of (rows m) p)"
    using c by (simp add: dict_get_def)
qed

lemma rows_columns_distinct:
  assumes "wf_matrix m" and "(p, cols) \<in> set (rows m)"
  shows "distinct (map fst cols)"
  using assms by (auto simp: wf_matrix_def list_all_iff)

text \<open>The row value of greedy mode is the row score of exact mode.\<close>

lemma scan_column_fst:
  "fst (foldl (scan_column desired W) (rv, sat, unsat) cols) =
     rv + (\<Sum>(c, v)\<leftarrow>cols. if c \<in> set desired then v * dict_get W c 0 else 0)"
proof (induction cols arbitrary: rv sat unsat)
  case Nil
  show ?case by simp
next
  case (Cons a cols)
  obtain c v where a: "a = (c, v)" by (cases a)
  obtain rv' sat' unsat' where
    step: "scan_column desired W (rv, sat, unsat) (c, v) = (rv', sat', unsat')"
    by (cases "scan_column desired W (rv, sat, unsat) (c, v)")
  have rv': "rv' = rv + (if c \<in> set desired then v * dict_get W c 0 else 0)"
    using step by (auto simp: scan_column_def split: if_splits)
  show ?case
    unfolding a by (simp only: foldl.simps step Cons.IH) (simp add: rv')
qed

lemma sum_list_single:
  "distinct xs \<Longrightarrow> (\<Sum>q\<leftarrow>xs. if q = c then (x::int) else 0) = (if c \<in> set xs then x else 0)"
  by (induction xs) auto

lemma row_score_Cons:
  assumes "c \<notin> fst ` set cols" and "distinct desired"
  shows "row_score desired W ((c, v) # cols) =
           (if c \<in> set desired then v * dict_get W c 0 else 0) + row_score desired W cols"
proof -
  have "map_of cols c = None"
    using assms(1) by (simp add: map_of_eq_None_iff)
  then have z: "dict_get cols c 0 = (0::int)"
    by (simp add: dict_get_def)
  have "dict_get ((c, v) # cols) q 0 * dict_get W q 0 =
          (if q = c then v * dict_get W c 0 else 0) + dict_get cols q 0 * dict_get W q 0" for q
    using z by (simp add: dict_get_def)
  then have "row_score desired W ((c, v) # cols) =
          (\<Sum>q\<leftarrow>desired. (if q = c then v * dict_get W c 0 else 0) +
                             dict_get cols q 0 * dict_get W q 0)"
    by (simp add: row_score_def)
  also have "\<dots> = (\<Sum>q\<leftarrow>desired. if q = c then v * dict_get W c 0 else 0) +
                    row_score desired W cols"
    by (simp add: row_score_def sum_list_addf)
  finally show ?thesis
    using assms(2) by (simp add: sum_list_single)
qed

lemma scan_columns_row_score:
  assumes "distinct (map fst cols)" and "distinct desired"
  shows "fst (scan_columns desired W cols) = row_score desired W cols"
proof -
  have "(\<Sum>(c, v)\<leftarrow>cols. if c \<in> set desired then v * dict_get W c 0 else 0) =
          row_score desired W cols"
    using assms(1)
  proof (induction cols)
    case Nil
    show ?case by (simp add: row_score_def dict_get_def)
  next
    case (Cons a cols)
    obtain c v where a: "a = (c, v)" by (cases a)
    have fresh: "c \<notin> fst ` set cols" using Cons.prems a by (simp add: image_iff)
    show ?case
      unfolding a using Cons.IH Cons.prems
      by (simp add: row_score_Cons [OF fresh assms(2)])
  qed
  then show ?thesis by (simp add: scan_columns_def scan_column_fst)
qed


text \<open>The scan of the patterns of one category keeps a first pattern of greatest value.\<close>

lemma greedy_patterns_inv:
  "arch_pattern_name (greedy_patterns D W d rs) = arch_pattern_name d \<and>
   (case score (greedy_patterns D W d rs) of
      NegInf \<Rightarrow> score d = NegInf \<and> rs = []
    | Score best \<Rightarrow>
        (\<forall>r \<in> set rs. fst (scan_columns D W (snd r)) \<le> best) \<and>
        (\<forall>s. score d = Score s \<longrightarrow> s \<le> best) \<and>
        (greedy_patterns D W d rs = d \<or>
         (\<exists>r \<in> set rs. selected_pattern (greedy_patterns D W d rs) = fst r \<and>
                         best = fst (scan_columns D W (snd r)))))"
proof (induction rs arbitrary: d)
  case Nil
  show ?case by (simp split: pyscore.splits)
next
  case (Cons a rs)
  obtain p cols where a: "a = (p, cols)" by (cases a)
  obtain rv sat unsat where sc: "scan_columns D W cols = (rv, sat, unsat)"
    by (cases "scan_columns D W cols")
  define d' where
    "d' = d\<lparr>score := Score rv, selected_pattern := p,
             satisfied_qualities := sat, unsatisfied_qualities := unsat\<rparr>"
  show ?case
  proof (cases "exceeds rv (score d)")
    case True
    have step: "greedy_patterns D W d (a # rs) = greedy_patterns D W d' rs"
      using True by (simp add: a sc d'_def)
    have d'f: "score d' = Score rv" "selected_pattern d' = p"
      "arch_pattern_name d' = arch_pattern_name d"
      by (simp_all add: d'_def)
    from Cons.IH [of d'] obtain best where
      b: "score (greedy_patterns D W d' rs) = Score best"
      and all: "\<forall>r \<in> set rs. fst (scan_columns D W (snd r)) \<le> best"
      and ge: "rv \<le> best"
      and sel: "greedy_patterns D W d' rs = d' \<or>
         (\<exists>r \<in> set rs. selected_pattern (greedy_patterns D W d' rs) = fst r \<and>
                         best = fst (scan_columns D W (snd r)))"
      and nm: "arch_pattern_name (greedy_patterns D W d' rs) = arch_pattern_name d'"
      using d'f by (auto split: pyscore.splits)
    have old: "\<forall>s. score d = Score s \<longrightarrow> s \<le> best"
      using True ge by (auto simp: exceeds_def)
    have sel': "\<exists>r \<in> set (a # rs). selected_pattern (greedy_patterns D W d' rs) = fst r \<and>
                         best = fst (scan_columns D W (snd r))"
    proof (cases "greedy_patterns D W d' rs = d'")
      case True
      then have "best = rv" using b d'f by simp
      then show ?thesis using True d'f a sc by simp
    next
      case False
      then show ?thesis using sel by auto
    qed
    show ?thesis
      unfolding step using b all ge old sel' nm d'f a sc by simp
  next
    case False
    have step: "greedy_patterns D W d (a # rs) = greedy_patterns D W d rs"
      using False by (simp add: a sc)
    from False obtain s where s: "score d = Score s" "rv \<le> s"
      by (cases "score d") (auto simp: exceeds_def)
    from Cons.IH [of d] obtain best where
      b: "score (greedy_patterns D W d rs) = Score best"
      and all: "\<forall>r \<in> set rs. fst (scan_columns D W (snd r)) \<le> best"
      and ge: "s \<le> best"
      and sel: "greedy_patterns D W d rs = d \<or>
         (\<exists>r \<in> set rs. selected_pattern (greedy_patterns D W d rs) = fst r \<and>
                         best = fst (scan_columns D W (snd r)))"
      and nm: "arch_pattern_name (greedy_patterns D W d rs) = arch_pattern_name d"
      using s by (auto split: pyscore.splits)
    show ?thesis
      unfolding step using b all ge sel nm s a sc by auto
  qed
qed

lemma greedy_patterns_max:
  assumes "rs \<noteq> []" and "score d = NegInf"
  shows "\<exists>r \<in> set rs.
           selected_pattern (greedy_patterns D W d rs) = fst r \<and>
           score (greedy_patterns D W d rs) = Score (fst (scan_columns D W (snd r))) \<and>
           (\<forall>r' \<in> set rs. fst (scan_columns D W (snd r'))
                            \<le> fst (scan_columns D W (snd r)))"
proof -
  from greedy_patterns_inv [of D W d rs] assms obtain best where
    b: "score (greedy_patterns D W d rs) = Score best"
    and all: "\<forall>r \<in> set rs. fst (scan_columns D W (snd r)) \<le> best"
    and sel: "greedy_patterns D W d rs = d \<or>
         (\<exists>r \<in> set rs. selected_pattern (greedy_patterns D W d rs) = fst r \<and>
                         best = fst (scan_columns D W (snd r)))"
    by (cases "score (greedy_patterns D W d rs)") auto
  have "greedy_patterns D W d rs \<noteq> d" using b assms(2) by auto
  with sel obtain r where "r \<in> set rs"
    "selected_pattern (greedy_patterns D W d rs) = fst r"
    "best = fst (scan_columns D W (snd r))"
    by blast
  then show ?thesis using b all by blast
qed

lemma pattern_value:
  assumes "wf_matrix m" and "distinct D" and "p \<in> set (category_patterns m g)"
  shows "fst (scan_columns D W (the (map_of (rows m) p))) = pattern_score D W m p"
proof -
  have inr: "p \<in> fst ` set (rows m)"
    using category_patterns_in_rows [OF assms(1,3)] .
  have "distinct (map fst (the (map_of (rows m) p)))"
    using rows_columns_distinct [OF assms(1) rows_lookup(1) [OF assms(1) inr]] .
  then show ?thesis
    by (simp add: scan_columns_row_score assms(2) pattern_score_def
        rows_lookup(2) [OF assms(1) inr])
qed

lemma greedy_decision_maximal:
  assumes "wf_matrix m" and "distinct D" and "iteration_order so"
    and "g \<in> set (get_all_groups so m)"
  shows "arch_pattern_name (greedy_decision D W m g) = g"
    and "maximal_in_category D W m (greedy_decision D W m g)"
proof -
  let ?d0 = "\<lparr>arch_pattern_name = g, selected_pattern = [], score = NegInf,
        satisfied_qualities = [], unsatisfied_qualities = []\<rparr>"
  let ?rs = "map (\<lambda>p. (p, the (map_of (rows m) p))) (category_patterns m g)"
  show nm: "arch_pattern_name (greedy_decision D W m g) = g"
    using greedy_patterns_inv [of D W ?d0 ?rs] by (simp add: greedy_decision_def)
  have ne: "?rs \<noteq> []" using category_patterns_nonempty [OF assms(3,4)] by simp
  have "\<exists>r \<in> set ?rs.
           selected_pattern (greedy_decision D W m g) = fst r \<and>
           score (greedy_decision D W m g) = Score (fst (scan_columns D W (snd r))) \<and>
           (\<forall>r' \<in> set ?rs. fst (scan_columns D W (snd r'))
                             \<le> fst (scan_columns D W (snd r)))"
    unfolding greedy_decision_def by (rule greedy_patterns_max [OF ne]) simp
  then obtain r where
    r: "r \<in> set ?rs"
    and sel: "selected_pattern (greedy_decision D W m g) = fst r"
    and sc: "score (greedy_decision D W m g) = Score (fst (scan_columns D W (snd r)))"
    and mx: "\<forall>r' \<in> set ?rs. fst (scan_columns D W (snd r')) \<le> fst (scan_columns D W (snd r))"
    by blast
  from r obtain p where p: "p \<in> set (category_patterns m g)"
    "r = (p, the (map_of (rows m) p))"
    by auto
  have v: "fst (scan_columns D W (snd r)) = pattern_score D W m p"
    using pattern_value [OF assms(1,2) p(1)] p(2) by simp
  have "\<forall>q \<in> set (category_patterns m g). pattern_score D W m q \<le> pattern_score D W m p"
  proof
    fix q assume q: "q \<in> set (category_patterns m g)"
    then have "(q, the (map_of (rows m) q)) \<in> set ?rs" by simp
    with mx have "fst (scan_columns D W (the (map_of (rows m) q))) \<le> fst (scan_columns D W (snd r))"
      by force
    then show "pattern_score D W m q \<le> pattern_score D W m p"
      using pattern_value [OF assms(1,2) q] v by simp
  qed
  then show "maximal_in_category D W m (greedy_decision D W m g)"
    using nm sel sc v p by (simp add: maximal_in_category_def list_all_iff)
qed

lemma greedy_groups_wf:
  assumes "wf_matrix m"
  shows "greedy_groups D m W gs acc = Inr (acc @ map (greedy_decision D W m) gs)"
  by (induction gs arbitrary: acc)
     (simp_all add: get_rows_by_group_wf [OF assms] greedy_decision_def)

lemma calculate_satisfaction_scores_wf:
  assumes "wf_matrix m"
  shows "\<exists>scores. calculate_satisfaction_scores m W ds acc = Inr scores"
  by (induction ds arbitrary: acc)
     (simp_all add: get_rows_by_group_wf [OF assms] split: option.splits)

lemma greedy_wf:
  assumes "wf_matrix m"
  shows "\<exists>scores. greedy so D m W = Inr (map (greedy_decision D W m) (get_all_groups so m), scores)"
proof -
  obtain scores where
    "calculate_satisfaction_scores m W (map (greedy_decision D W m) (get_all_groups so m)) [] =
       Inr scores"
    using calculate_satisfaction_scores_wf [OF assms] by blast
  then show ?thesis
    by (simp add: greedy_def greedy_groups_wf [OF assms])
qed


text \<open>The integer program of exact mode for a well-formed matrix.\<close>

lemma build_constraints_wf:
  assumes "wf_matrix m"
  shows "build_constraints m gs = Inr (map (\<lambda>g. (g, category_patterns m g)) gs)"
  by (induction gs) (simp_all add: get_rows_by_group_wf [OF assms] o_def)

lemma build_problem_wf:
  assumes "wf_matrix m"
  shows "build_problem so D m W =
           Inr \<lparr>ilp_variables = map fst (rows m),
                ilp_constraints = map (\<lambda>g. (g, category_patterns m g)) (get_all_groups so m),
                ilp_objective = map (\<lambda>(pattern, columns). (pattern, row_score D W columns))
                                  (rows m)\<rparr>"
  by (simp add: build_problem_def build_constraints_wf [OF assms])

lemma build_problem_fields:
  assumes "wf_matrix m" and "build_problem so D m W = Inr P"
  shows "ilp_variables P = map fst (rows m)"
    and "ilp_constraints P = map (\<lambda>g. (g, category_patterns m g)) (get_all_groups so m)"
    and "ilp_objective P =
           map (\<lambda>(pattern, columns). (pattern, row_score D W columns)) (rows m)"
proof -
  have "P = \<lparr>ilp_variables = map fst (rows m),
             ilp_constraints = map (\<lambda>g. (g, category_patterns m g)) (get_all_groups so m),
             ilp_objective = map (\<lambda>(pattern, columns). (pattern, row_score D W columns))
                               (rows m)\<rparr>"
    using assms(2) unfolding build_problem_wf [OF assms(1)] by simp
  then show "ilp_variables P = map fst (rows m)"
    and "ilp_constraints P = map (\<lambda>g. (g, category_patterns m g)) (get_all_groups so m)"
    and "ilp_objective P =
           map (\<lambda>(pattern, columns). (pattern, row_score D W columns)) (rows m)"
    by simp_all
qed

lemma ilp_value_wf:
  assumes "wf_matrix m" and "build_problem so D m W = Inr P"
  shows "ilp_value P s = (\<Sum>p \<in> fst ` set (rows m). pattern_score D W m p * s p)"
proof -
  have dist: "distinct (map fst (rows m))" using assms(1) by (simp add: wf_matrix_def)
  have P: "ilp_objective P = map (\<lambda>(pattern, columns). (pattern, row_score D W columns)) (rows m)"
    using build_problem_fields(3) [OF assms] .
  have "ilp_value P s = (\<Sum>r\<leftarrow>rows m. row_score D W (snd r) * s (fst r))"
    by (simp add: ilp_value_def P o_def split_def)
  also have "\<dots> = (\<Sum>r\<leftarrow>rows m. pattern_score D W m (fst r) * s (fst r))"
  proof (rule arg_cong [where f = sum_list], rule map_cong [OF refl])
    fix r assume r: "r \<in> set (rows m)"
    then have "map_of (rows m) (fst r) = Some (snd r)"
      using dist by (simp add: map_of_is_SomeI)
    then show "row_score D W (snd r) * s (fst r) = pattern_score D W m (fst r) * s (fst r)"
      by (simp add: pattern_score_def dict_get_def)
  qed
  also have "\<dots> = (\<Sum>p\<leftarrow>map fst (rows m). pattern_score D W m p * s p)"
    by (simp add: o_def)
  also have "\<dots> = (\<Sum>p \<in> set (map fst (rows m)). pattern_score D W m p * s p)"
    using dist by (rule sum_list_distinct_conv_sum_set)
  finally show ?thesis by simp
qed

lemma ilp_candidates_member:
  assumes "\<forall>v. f v = 0 \<or> f v = 1" and "\<forall>v. v \<notin> set vs \<longrightarrow> f v = 0"
  shows "f \<in> set (ilp_candidates vs)"
  using assms
proof (induction vs arbitrary: f)
  case Nil
  then have "f = (\<lambda>v. 0)" by auto
  then show ?case by simp
next
  case (Cons v vs)
  define f0 where "f0 = (if v \<in> set vs then f else f(v := 0))"
  have a: "\<forall>w. f0 w = 0 \<or> f0 w = 1" using Cons.prems(1) by (simp add: f0_def)
  have b: "\<forall>w. w \<notin> set vs \<longrightarrow> f0 w = 0" using Cons.prems(2) by (auto simp: f0_def)
  have mem: "f0 \<in> set (ilp_candidates vs)" using Cons.IH [OF a b] .
  have "f = f0(v := f v)" by (auto simp: f0_def)
  then have "f = f0(v := 0) \<or> f = f0(v := 1)"
    using Cons.prems(1) by metis
  then show ?case using mem by auto
qed

lemma zero_one_sum_has_one:
  assumes "\<forall>x \<in> set xs. f x = 0 \<or> f x = (1::int)" and "sum_list (map f xs) = 1"
  shows "\<exists>x \<in> set xs. f x = 1"
proof (rule ccontr)
  assume "\<not> (\<exists>x \<in> set xs. f x = 1)"
  then have "\<forall>x \<in> set xs. f x = 0" using assms(1) by blast
  then have "sum_list (map f xs) = 0" by (induction xs) auto
  then show False using assms(2) by simp
qed

lemma zero_one_sum_others_zero:
  assumes "\<forall>x \<in> set xs. f x = 0 \<or> f x = (1::int)" and "sum_list (map f xs) = 1"
    and "distinct xs" and "x \<in> set xs" and "f x = 1" and "y \<in> set xs" and "y \<noteq> x"
  shows "f y = 0"
proof -
  have s: "sum f (set xs) = 1"
    using assms(2,3) by (simp add: sum_list_distinct_conv_sum_set)
  have "sum f (set xs) = f x + sum f (set xs - {x})"
    using assms(4) by (simp add: sum.remove)
  then have z: "sum f (set xs - {x}) = 0" using s assms(5) by simp
  have nn: "\<forall>w \<in> set xs - {x}. 0 \<le> f w" using assms(1) by auto
  have "\<forall>w \<in> set xs - {x}. f w = 0"
    using z nn sum_nonneg_eq_0_iff [of "set xs - {x}" f] by auto
  then show ?thesis using assms(6,7) by simp
qed

lemma find_first:
  "\<exists>x \<in> set xs. Q x \<Longrightarrow> \<exists>y. find Q xs = Some y \<and> y \<in> set xs \<and> Q y"
  by (induction xs) auto

lemma ilp_feasible_wf:
  assumes "wf_matrix m" and "build_problem so D m W = Inr P"
  shows "ilp_feasible P s =
           ((\<forall>p \<in> fst ` set (rows m). s p = 0 \<or> s p = 1) \<and>
            (\<forall>g \<in> set (get_all_groups so m). sum_list (map s (category_patterns m g)) = 1))"
  by (auto simp: ilp_feasible_def list_all_iff build_problem_fields [OF assms])

text \<open>
  The exchange step: if a pattern of the category scored more than the selected one,
  moving the 1 to it would give a feasible assignment of greater objective value.
\<close>

lemma ilp_selected_maximal:
  assumes wf: "wf_matrix m" and P: "build_problem so D m W = Inr P"
    and opt: "ilp_optimal P sol"
    and g: "g \<in> set (get_all_groups so m)"
    and p1: "p1 \<in> set (category_patterns m g)" "sol p1 = 1"
    and q: "q \<in> set (category_patterns m g)"
  shows "pattern_score D W m q \<le> pattern_score D W m p1"
proof (rule ccontr)
  assume "\<not> pattern_score D W m q \<le> pattern_score D W m p1"
  then have gt: "pattern_score D W m p1 < pattern_score D W m q" by simp
  then have ne: "q \<noteq> p1" by auto
  let ?V = "fst ` set (rows m)"
  let ?c = "pattern_score D W m"
  have feas: "ilp_feasible P sol" using opt by (simp add: ilp_optimal_def)
  have vals: "\<forall>p \<in> ?V. sol p = 0 \<or> sol p = 1"
    and sums: "\<forall>h \<in> set (get_all_groups so m). sum_list (map sol (category_patterns m h)) = 1"
    using feas by (simp_all add: ilp_feasible_wf [OF wf P])
  have qV: "q \<in> ?V" and p1V: "p1 \<in> ?V"
    using category_patterns_in_rows [OF wf] q p1(1) by blast+
  have catV: "\<And>h x. x \<in> set (category_patterns m h) \<Longrightarrow> x \<in> ?V"
    using category_patterns_in_rows [OF wf] by blast
  have gvals: "\<forall>x \<in> set (category_patterns m g). sol x = 0 \<or> sol x = 1"
    using vals catV by blast
  have gsum: "sum_list (map sol (category_patterns m g)) = 1" using sums g by blast
  have gdist: "distinct (category_patterns m g)" using category_patterns_distinct [OF wf] .
  have others: "\<And>y. y \<in> set (category_patterns m g) \<Longrightarrow> y \<noteq> p1 \<Longrightarrow> sol y = 0"
    using zero_one_sum_others_zero [OF gvals gsum gdist p1(1) p1(2)] by blast
  define sol' where
    "sol' = (\<lambda>v. if v = q then 1 else if v = p1 then 0 else if v \<in> ?V then sol v else 0)"
  have cand: "sol' \<in> set (ilp_candidates (ilp_variables P))"
  proof (rule ilp_candidates_member)
    show "\<forall>v. sol' v = 0 \<or> sol' v = 1" using vals by (auto simp: sol'_def)
    have "set (ilp_variables P) = ?V"
      by (simp add: build_problem_fields(1) [OF wf P])
    then show "\<forall>v. v \<notin> set (ilp_variables P) \<longrightarrow> sol' v = 0"
      using qV p1V by (auto simp: sol'_def)
  qed
  have feas': "ilp_feasible P sol'"
    unfolding ilp_feasible_wf [OF wf P]
  proof (intro conjI ballI)
    fix p assume "p \<in> ?V"
    then show "sol' p = 0 \<or> sol' p = 1" using vals by (auto simp: sol'_def)
  next
    fix h assume h: "h \<in> set (get_all_groups so m)"
    have hdist: "distinct (category_patterns m h)" using category_patterns_distinct [OF wf] .
    show "sum_list (map sol' (category_patterns m h)) = 1"
    proof (cases "h = g")
      case True
      have "sum_list (map sol' (category_patterns m g)) = sum sol' (set (category_patterns m g))"
        using gdist by (simp add: sum_list_distinct_conv_sum_set)
      also have "\<dots> = sol' q + sum sol' (set (category_patterns m g) - {q})"
        using q by (simp add: sum.remove)
      also have "sum sol' (set (category_patterns m g) - {q}) = 0"
      proof (rule sum.neutral, rule ballI)
        fix x assume x: "x \<in> set (category_patterns m g) - {q}"
        show "sol' x = 0"
        proof (cases "x = p1")
          case True
          then show ?thesis using ne by (simp add: sol'_def)
        next
          case False
          then have "sol x = 0" using others x by simp
          then show ?thesis using x False catV by (auto simp: sol'_def)
        qed
      qed
      finally show ?thesis using True by (simp add: sol'_def)
    next
      case False
      have same: "\<And>x. x \<in> set (category_patterns m h) \<Longrightarrow> sol' x = sol x"
      proof -
        fix x assume x: "x \<in> set (category_patterns m h)"
        have "x \<noteq> q" using category_patterns_unique [OF wf x] q False by auto
        moreover have "x \<noteq> p1" using category_patterns_unique [OF wf x] p1(1) False by auto
        ultimately show "sol' x = sol x" using catV [OF x] by (simp add: sol'_def)
      qed
      have "sum_list (map sol' (category_patterns m h)) =
              sum_list (map sol (category_patterns m h))"
        by (rule arg_cong [where f = sum_list], rule map_cong [OF refl]) (rule same)
      also have "\<dots> = 1" using sums h by blast
      finally show ?thesis .
    qed
  qed
  have fin: "finite ?V" by simp
  have split: "(\<Sum>p \<in> ?V. ?c p * s p) =
                 ?c q * s q + (?c p1 * s p1 + (\<Sum>p \<in> ?V - {q} - {p1}. ?c p * s p))"
    for s :: "string \<Rightarrow> int"
  proof -
    have "(\<Sum>p \<in> ?V. ?c p * s p) = ?c q * s q + (\<Sum>p \<in> ?V - {q}. ?c p * s p)"
      using fin qV by (simp add: sum.remove)
    moreover have "(\<Sum>p \<in> ?V - {q}. ?c p * s p) =
                     ?c p1 * s p1 + (\<Sum>p \<in> ?V - {q} - {p1}. ?c p * s p)"
      using fin p1V ne by (subst sum.remove [of _ p1]) auto
    ultimately show ?thesis by simp
  qed
  have rest: "(\<Sum>p \<in> ?V - {q} - {p1}. ?c p * sol' p) = (\<Sum>p \<in> ?V - {q} - {p1}. ?c p * sol p)"
    by (rule sum.cong) (auto simp: sol'_def)
  have solq: "sol q = 0" using others [OF q ne] .
  have "ilp_value P sol' = ?c q + (\<Sum>p \<in> ?V - {q} - {p1}. ?c p * sol p)"
    unfolding ilp_value_wf [OF wf P] split [of sol'] rest using ne by (simp add: sol'_def)
  moreover have "ilp_value P sol = ?c p1 + (\<Sum>p \<in> ?V - {q} - {p1}. ?c p * sol p)"
    unfolding ilp_value_wf [OF wf P] split [of sol] using solq p1(2) by simp
  ultimately have more: "ilp_value P sol < ilp_value P sol'" using gt by simp
  have "ilp_value P sol' \<le> ilp_value P sol"
    using opt cand feas' by (auto simp: ilp_optimal_def list_all_iff)
  then show False using more by simp
qed


lemma feasible_selects_one:
  assumes wf: "wf_matrix m" and P: "build_problem so D m W = Inr P"
    and feas: "ilp_feasible P sol" and g: "g \<in> set (get_all_groups so m)"
  shows "\<exists>y. find (\<lambda>(pattern, columns). sol pattern = 1)
               (map (\<lambda>p. (p, the (map_of (rows m) p))) (category_patterns m g)) = Some y \<and>
             fst y \<in> set (category_patterns m g) \<and> sol (fst y) = 1 \<and>
             snd y = the (map_of (rows m) (fst y))"
proof -
  have vals: "\<forall>x \<in> set (category_patterns m g). sol x = 0 \<or> sol x = 1"
    using feas category_patterns_in_rows [OF wf] by (auto simp: ilp_feasible_wf [OF wf P])
  have "sum_list (map sol (category_patterns m g)) = 1"
    using feas g by (simp add: ilp_feasible_wf [OF wf P])
  from zero_one_sum_has_one [OF vals this] obtain x where
    x: "x \<in> set (category_patterns m g)" "sol x = 1"
    by blast
  let ?rs = "map (\<lambda>p. (p, the (map_of (rows m) p))) (category_patterns m g)"
  have "\<exists>r \<in> set ?rs. (\<lambda>(pattern, columns). sol pattern = 1) r"
    using x by auto
  from find_first [OF this] obtain y where
    y: "find (\<lambda>(pattern, columns). sol pattern = 1) ?rs = Some y" "y \<in> set ?rs"
       "(\<lambda>(pattern, columns). sol pattern = 1) y"
    by blast
  then show ?thesis by (auto simp: split_def)
qed

lemma extract_decisions_wf:
  assumes wf: "wf_matrix m" and P: "build_problem so D m W = Inr P"
    and feas: "ilp_feasible P sol" and gs: "set gs \<subseteq> set (get_all_groups so m)"
  shows "extract_decisions D m W sol gs = Inr (map (exact_decision D W m sol) gs)"
  using gs
proof (induction gs)
  case Nil
  show ?case by simp
next
  case (Cons g gs)
  have g: "g \<in> set (get_all_groups so m)" using Cons.prems by simp
  from feasible_selects_one [OF wf P feas g] obtain y where
    y: "find (\<lambda>(pattern, columns). sol pattern = 1)
          (map (\<lambda>p. (p, the (map_of (rows m) p))) (category_patterns m g)) = Some y"
    by blast
  show ?case
    using Cons.IH Cons.prems y
    by (simp add: get_rows_by_group_wf [OF wf] exact_decision_def)
qed

lemma exact_decision_maximal:
  assumes wf: "wf_matrix m" and P: "build_problem so D m W = Inr P"
    and opt: "ilp_optimal P sol" and g: "g \<in> set (get_all_groups so m)"
  shows "arch_pattern_name (exact_decision D W m sol g) = g"
    and "maximal_in_category D W m (exact_decision D W m sol g)"
proof -
  have feas: "ilp_feasible P sol" using opt by (simp add: ilp_optimal_def)
  from feasible_selects_one [OF wf P feas g] obtain y where
    y: "find (\<lambda>(pattern, columns). sol pattern = 1)
          (map (\<lambda>p. (p, the (map_of (rows m) p))) (category_patterns m g)) = Some y"
    and mem': "fst y \<in> set (category_patterns m g)" and one': "sol (fst y) = 1"
    and cols': "snd y = the (map_of (rows m) (fst y))"
    by blast
  obtain p1 c1 where yp: "y = (p1, c1)" by (cases y)
  have mem: "p1 \<in> set (category_patterns m g)" and one: "sol p1 = 1"
    and cols: "c1 = the (map_of (rows m) p1)"
    using mem' one' cols' by (simp_all add: yp)
  have ed: "exact_decision D W m sol g = ilp_decision D W g (p1, c1)"
    using y by (simp add: exact_decision_def yp)
  show nm: "arch_pattern_name (exact_decision D W m sol g) = g"
    by (simp add: ed ilp_decision_def)
  have sel: "selected_pattern (exact_decision D W m sol g) = p1"
    by (simp add: ed ilp_decision_def)
  have inr: "p1 \<in> fst ` set (rows m)" using category_patterns_in_rows [OF wf mem] .
  have sc: "score (exact_decision D W m sol g) = Score (pattern_score D W m p1)"
    by (simp add: ed ilp_decision_def pattern_score_def cols rows_lookup(2) [OF wf inr])
  have "\<forall>q \<in> set (category_patterns m g).
          pattern_score D W m q \<le> pattern_score D W m p1"
    using ilp_selected_maximal [OF wf P opt g mem one] by blast
  then show "maximal_in_category D W m (exact_decision D W m sol g)"
    using nm sel sc mem by (simp add: maximal_in_category_def list_all_iff)
qed

lemma total_score_map:
  assumes "\<forall>g \<in> set gs. score (F g) = Score (a g)"
  shows "total_score (map F gs) = Score (sum_list (map a gs))"
proof -
  have "foldl add_score (Score x) (map score (map F gs)) = Score (x + sum_list (map a gs))"
    for x
    using assms
  proof (induction gs arbitrary: x)
    case Nil
    show ?case by simp
  next
    case (Cons g gs)
    have "score (F g) = Score (a g)" using Cons.prems by simp
    then show ?case
      using Cons.IH [of "x + a g"] Cons.prems by (simp add: add_score_def add.assoc)
  qed
  from this [of 0] show ?thesis by (simp add: total_score_def)
qed


text \<open>
  The program of exact mode has an optimal solution: selecting the first pattern of
  every category is feasible, and the exhaustive search returns a feasible assignment
  of greatest objective value.
\<close>

lemma best_candidate_None:
  "best_candidate p ss = None \<Longrightarrow> \<forall>t \<in> set ss. \<not> ilp_feasible p t"
  by (induction ss) (auto split: if_splits option.splits)

lemma best_candidate_Some:
  "best_candidate p ss = Some b \<Longrightarrow>
     ilp_feasible p b \<and> b \<in> set ss \<and>
     (\<forall>s \<in> set ss. ilp_feasible p s \<longrightarrow> ilp_value p s \<le> ilp_value p b)"
proof (induction ss arbitrary: b)
  case Nil
  then show ?case by simp
next
  case (Cons s ss)
  show ?case
  proof (cases "ilp_feasible p s")
    case False
    then have "best_candidate p ss = Some b" using Cons.prems by simp
    from Cons.IH [OF this] show ?thesis using False by auto
  next
    case True
    show ?thesis
    proof (cases "best_candidate p ss")
      case None
      have none: "\<forall>t \<in> set ss. \<not> ilp_feasible p t"
        using best_candidate_None [OF None] .
      have "b = s" using Cons.prems True None by simp
      then show ?thesis using True none by auto
    next
      case (Some b')
      note ih = Cons.IH [OF Some]
      show ?thesis
      proof (cases "ilp_value p b' \<le> ilp_value p s")
        case le: True
        have "b = s" using Cons.prems True Some le by simp
        then show ?thesis using True ih le by force
      next
        case gt: False
        have "b = b'" using Cons.prems True Some gt by simp
        then show ?thesis using True ih gt by force
      qed
    qed
  qed
qed

lemma best_candidate_exists:
  "\<exists>s \<in> set ss. ilp_feasible p s \<Longrightarrow> \<exists>b. best_candidate p ss = Some b"
  using best_candidate_None [of p ss] by (cases "best_candidate p ss") auto

lemma first_patterns_feasible:
  assumes wf: "wf_matrix m" and io: "iteration_order so"
    and P: "build_problem so D m W = Inr P"
  shows "\<exists>s \<in> set (ilp_candidates (ilp_variables P)). ilp_feasible P s"
proof -
  let ?V = "fst ` set (rows m)"
  let ?gs = "get_all_groups so m"
  define s :: ilp_solution where
    "s = (\<lambda>v. if \<exists>g \<in> set ?gs. v = hd (category_patterns m g) then 1 else 0)"
  have hd_mem: "hd (category_patterns m g) \<in> set (category_patterns m g)"
    if "g \<in> set ?gs" for g
    using category_patterns_nonempty [OF io that] by simp
  have chosenV: "hd (category_patterns m g) \<in> ?V" if "g \<in> set ?gs" for g
    using category_patterns_in_rows [OF wf hd_mem [OF that]] .
  have cand: "s \<in> set (ilp_candidates (ilp_variables P))"
  proof (rule ilp_candidates_member)
    show "\<forall>v. s v = 0 \<or> s v = 1" by (simp add: s_def)
    have "set (ilp_variables P) = ?V"
      by (simp add: build_problem_fields(1) [OF wf P])
    then show "\<forall>v. v \<notin> set (ilp_variables P) \<longrightarrow> s v = 0"
      using chosenV by (auto simp: s_def)
  qed
  have feas: "ilp_feasible P s"
    unfolding ilp_feasible_wf [OF wf P]
  proof (intro conjI ballI)
    fix p assume "p \<in> ?V"
    show "s p = 0 \<or> s p = 1" by (simp add: s_def)
  next
    fix h assume h: "h \<in> set ?gs"
    have same: "s x = (if x = hd (category_patterns m h) then 1 else 0)"
      if x: "x \<in> set (category_patterns m h)" for x
    proof (cases "x = hd (category_patterns m h)")
      case True
      then show ?thesis using h by (auto simp: s_def)
    next
      case False
      have "x \<noteq> hd (category_patterns m g)" if g: "g \<in> set ?gs" for g
      proof
        assume e: "x = hd (category_patterns m g)"
        then have "x \<in> set (category_patterns m g)" using hd_mem [OF g] by simp
        then have "h = g" using category_patterns_unique [OF wf x] by simp
        then show False using e False by simp
      qed
      then show ?thesis using False by (auto simp: s_def)
    qed
    have "sum_list (map s (category_patterns m h)) =
            (\<Sum>x\<leftarrow>category_patterns m h. if x = hd (category_patterns m h) then 1 else 0)"
      by (rule arg_cong [where f = sum_list], rule map_cong [OF refl]) (rule same)
    also have "\<dots> = 1"
      using sum_list_single [OF category_patterns_distinct [OF wf, of h],
          where c = "hd (category_patterns m h)" and x = 1] hd_mem [OF h]
      by simp
    finally show "sum_list (map s (category_patterns m h)) = 1" .
  qed
  show ?thesis using cand feas by blast
qed

lemma exhaustive_solver_optimal:
  assumes wf: "wf_matrix m" and io: "iteration_order so"
    and P: "build_problem so D m W = Inr P"
  shows "\<exists>sol. exhaustive_solver P = Some sol \<and> ilp_optimal P sol"
proof -
  obtain b where b: "best_candidate P (ilp_candidates (ilp_variables P)) = Some b"
    using best_candidate_exists [OF first_patterns_feasible [OF wf io P]] by blast
  have "ilp_optimal P b"
    using best_candidate_Some [OF b] by (auto simp: ilp_optimal_def list_all_iff)
  then show ?thesis using b by (simp add: exhaustive_solver_def)
qed

lemma total_score_Nil: "total_score [] = Score 0"
  by (simp add: total_score_def)

text \<open>
  C1, as stated: on every matrix with a pattern in each category exact mode selects a
  pattern of greatest row score per category and its total is never below that of
  greedy mode. Exact mode returns no decision at all when the solver cannot be created,
  and when the solver does not report an optimal solution. On the example matrix, with
  the weights 50 and 50 for Performance Efficiency and Security, greedy mode selects
  Monolith with the score 100, and exact mode without a solver, or with a solver that
  reports no optimal solution, returns the empty list, whose total is 0.
\<close>

theorem exact_mode_without_solution_counterexample:
  "wf_matrix example_matrix \<and>
   greedy remdups [''Performance Efficiency'', ''Security''] example_matrix
       [(''Performance Efficiency'', 50), (''Security'', 50)] =
     Inr ([\<lparr>arch_pattern_name = ''Deployment'', selected_pattern = ''Monolith'',
            score = Score 100,
            satisfied_qualities = [(''Performance Efficiency'', 1), (''Security'', 1)],
            unsatisfied_qualities = []\<rparr>],
          [(''Performance Efficiency'', 50), (''Security'', 50), (''Maintainability'', 0)]) \<and>
   ilp remdups None [''Performance Efficiency'', ''Security''] example_matrix
       [(''Performance Efficiency'', 50), (''Security'', 50)] = Inr ([], []) \<and>
   ilp remdups (Some (\<lambda>problem. None)) [''Performance Efficiency'', ''Security'']
       example_matrix [(''Performance Efficiency'', 50), (''Security'', 50)] = Inr ([], []) \<and>
   total_score
     [\<lparr>arch_pattern_name = ''Deployment'', selected_pattern = ''Monolith'',
       score = Score 100,
       satisfied_qualities = [(''Performance Efficiency'', 1), (''Security'', 1)],
       unsatisfied_qualities = []\<rparr>] = Score 100 \<and>
   total_score [] = Score 0 \<and>
   \<not> score_le (Score 100) (Score 0)"
proof -
  have g: "greedy remdups [''Performance Efficiency'', ''Security''] example_matrix
       [(''Performance Efficiency'', 50), (''Security'', 50)] =
     Inr ([\<lparr>arch_pattern_name = ''Deployment'', selected_pattern = ''Monolith'',
            score = Score 100,
            satisfied_qualities = [(''Performance Efficiency'', 1), (''Security'', 1)],
            unsatisfied_qualities = []\<rparr>],
          [(''Performance Efficiency'', 50), (''Security'', 50), (''Maintainability'', 0)])"
    by (simp add: greedy_def get_all_groups_def get_rows_by_group_def example_matrix_def
        scan_columns_def scan_column_def exceeds_def dict_get_def add_satisfaction_def)
  have p: "build_problem remdups [''Performance Efficiency'', ''Security''] example_matrix
       [(''Performance Efficiency'', 50), (''Security'', 50)] =
     Inr \<lparr>ilp_variables = [''Monolith'', ''Microservices''],
          ilp_constraints = [(''Deployment'', [''Monolith'', ''Microservices''])],
          ilp_objective = [(''Monolith'', 100), (''Microservices'', 0)]\<rparr>"
    by (simp add: build_problem_def example_matrix_def get_all_groups_def
        get_rows_by_group_def row_score_def dict_get_def)
  have i1: "ilp remdups None [''Performance Efficiency'', ''Security''] example_matrix
       [(''Performance Efficiency'', 50), (''Security'', 50)] = Inr ([], [])"
    by (simp add: ilp_def)
  have i2: "ilp remdups (Some (\<lambda>problem. None)) [''Performance Efficiency'', ''Security'']
       example_matrix [(''Performance Efficiency'', 50), (''Security'', 50)] = Inr ([], [])"
    by (simp add: ilp_def p)
  have w: "wf_matrix example_matrix"
    by (simp add: wf_matrix_def example_matrix_def)
  have t: "total_score
     [\<lparr>arch_pattern_name = ''Deployment'', selected_pattern = ''Monolith'',
       score = Score 100,
       satisfied_qualities = [(''Performance Efficiency'', 1), (''Security'', 1)],
       unsatisfied_qualities = []\<rparr>] = Score 100"
    "total_score [] = Score 0" "\<not> score_le (Score 100) (Score 0)"
    by (simp_all add: total_score_def add_score_def score_le_def)
  show ?thesis
    using w g i1 i2 t by simp
qed

text \<open>
  C1, amended. For a well-formed matrix (each category then has at least one pattern), a
  list of desired qualities without repetition, any weight map and any iteration order
  of the set of categories: greedy mode returns one decision per category, in that
  order, and each decision selects a pattern of its category whose row score is the
  greatest of the category and carries that score. Exact mode builds a program of one
  variable in 0 and 1 per pattern and one constraint per category; the program has an
  optimal solution, which the exhaustive search finds. Whenever the solver returns an
  optimal solution of the program, exact mode also returns one decision per category,
  each selecting a pattern of greatest row score, and its total score equals that of
  greedy mode, so it is not less. When the solver cannot be created or returns no
  solution, exact mode returns no decisions and no satisfaction scores.
\<close>

theorem greedy_and_exact_select_maximum:
  assumes "wf_matrix m" and "distinct desired_qualities" and "iteration_order set_order"
  shows "\<exists>greedy_decisions greedy_scores problem.
           greedy set_order desired_qualities m column_weights =
             Inr (greedy_decisions, greedy_scores) \<and>
           map arch_pattern_name greedy_decisions = get_all_groups set_order m \<and>
           list_all (maximal_in_category desired_qualities column_weights m) greedy_decisions \<and>
           build_problem set_order desired_qualities m column_weights = Inr problem \<and>
           (\<exists>sol. exhaustive_solver problem = Some sol \<and> ilp_optimal problem sol) \<and>
           (\<forall>solve sol. solve problem = Some sol \<and> ilp_optimal problem sol \<longrightarrow>
              (\<exists>exact_decisions exact_scores.
                 ilp set_order (Some solve) desired_qualities m column_weights =
                   Inr (exact_decisions, exact_scores) \<and>
                 map arch_pattern_name exact_decisions = get_all_groups set_order m \<and>
                 list_all (maximal_in_category desired_qualities column_weights m)
                   exact_decisions \<and>
                 total_score exact_decisions = total_score greedy_decisions \<and>
                 score_le (total_score greedy_decisions) (total_score exact_decisions))) \<and>
           (\<forall>solve. solve problem = None \<longrightarrow>
              ilp set_order (Some solve) desired_qualities m column_weights = Inr ([], [])) \<and>
           ilp set_order None desired_qualities m column_weights = Inr ([], [])"
proof -
  let ?D = desired_qualities and ?W = column_weights
  let ?gs = "get_all_groups set_order m"
  let ?gd = "map (greedy_decision ?D ?W m) ?gs"
  note wf = assms(1) and io = assms(3)
  obtain problem where P: "build_problem set_order ?D m ?W = Inr problem"
    by (simp add: build_problem_wf [OF wf])
  obtain gsc where g1: "greedy set_order ?D m ?W = Inr (?gd, gsc)"
    using greedy_wf [OF wf] by blast
  have gn: "map arch_pattern_name ?gd = ?gs"
    using greedy_decision_maximal(1) [OF wf assms(2) io] by (simp add: map_idI)
  have gm: "list_all (maximal_in_category ?D ?W m) ?gd"
    using greedy_decision_maximal(2) [OF wf assms(2) io] by (simp add: list_all_iff)
  define a where "a = (\<lambda>g. pattern_score ?D ?W m (selected_pattern (greedy_decision ?D ?W m g)))"
  have ga: "\<forall>g \<in> set ?gs. score (greedy_decision ?D ?W m g) = Score (a g)"
    using greedy_decision_maximal(2) [OF wf assms(2) io]
    by (simp add: maximal_in_category_def a_def)
  have ex: "\<exists>sol. exhaustive_solver problem = Some sol \<and> ilp_optimal problem sol"
    by (rule exhaustive_solver_optimal [OF wf io P])
  have exact: "\<exists>exact_decisions exact_scores.
                 ilp set_order (Some solve) ?D m ?W = Inr (exact_decisions, exact_scores) \<and>
                 map arch_pattern_name exact_decisions = ?gs \<and>
                 list_all (maximal_in_category ?D ?W m) exact_decisions \<and>
                 total_score exact_decisions = total_score ?gd \<and>
                 score_le (total_score ?gd) (total_score exact_decisions)"
    if solved: "solve problem = Some sol" and opt: "ilp_optimal problem sol" for solve sol
  proof -
    let ?ed = "map (exact_decision ?D ?W m sol) ?gs"
    have feas: "ilp_feasible problem sol" using opt by (simp add: ilp_optimal_def)
    obtain esc where "calculate_satisfaction_scores m ?W ?ed [] = Inr esc"
      using calculate_satisfaction_scores_wf [OF wf] by blast
    then have e1: "ilp set_order (Some solve) ?D m ?W = Inr (?ed, esc)"
      by (simp add: ilp_def P solved extract_decisions_wf [OF wf P feas])
    have en: "map arch_pattern_name ?ed = ?gs"
      using exact_decision_maximal(1) [OF wf P opt] by (simp add: map_idI)
    have em: "list_all (maximal_in_category ?D ?W m) ?ed"
      using exact_decision_maximal(2) [OF wf P opt] by (simp add: list_all_iff)
    define b where
      "b = (\<lambda>g. pattern_score ?D ?W m (selected_pattern (exact_decision ?D ?W m sol g)))"
    have eb: "\<forall>g \<in> set ?gs. score (exact_decision ?D ?W m sol g) = Score (b g)"
      using exact_decision_maximal(2) [OF wf P opt]
      by (simp add: maximal_in_category_def b_def)
    have eq: "a g = b g" if g: "g \<in> set ?gs" for g
    proof -
      have gsel: "selected_pattern (greedy_decision ?D ?W m g) \<in> set (category_patterns m g)"
        and gmax: "\<forall>q \<in> set (category_patterns m g). pattern_score ?D ?W m q \<le> a g"
        using greedy_decision_maximal [OF wf assms(2) io g]
        by (simp_all add: maximal_in_category_def list_all_iff a_def)
      have esel: "selected_pattern (exact_decision ?D ?W m sol g) \<in> set (category_patterns m g)"
        and emax: "\<forall>q \<in> set (category_patterns m g). pattern_score ?D ?W m q \<le> b g"
        using exact_decision_maximal [OF wf P opt g]
        by (simp_all add: maximal_in_category_def list_all_iff b_def)
      have "a g \<le> b g" using gsel emax by (simp add: a_def)
      moreover have "b g \<le> a g" using esel gmax by (simp add: b_def)
      ultimately show ?thesis by simp
    qed
    have me: "map a ?gs = map b ?gs"
      by (rule map_cong [OF refl]) (rule eq)
    have se: "sum_list (map a ?gs) = sum_list (map b ?gs)"
      by (simp only: me)
    have tot: "total_score ?ed = total_score ?gd"
      unfolding total_score_map [OF ga] total_score_map [OF eb] using se by simp
    have "score_le (total_score ?gd) (total_score ?ed)"
      unfolding tot by (simp add: total_score_map [OF ga] score_le_def)
    then show ?thesis
      using e1 en em tot by blast
  qed
  have none: "ilp set_order (Some solve) ?D m ?W = Inr ([], [])"
    if "solve problem = None" for solve
    using that by (simp add: ilp_def P)
  have nosolver: "ilp set_order None ?D m ?W = Inr ([], [])"
    by (simp add: ilp_def)
  show ?thesis
    using g1 gn gm P ex exact none nosolver by blast
qed

theorem greedy_and_exact_select_maximum_witness:
  "wf_matrix example_matrix \<and>
   distinct [''Performance Efficiency'', ''Security''] \<and>
   iteration_order remdups \<and>
   build_problem remdups [''Performance Efficiency'', ''Security''] example_matrix
       [(''Performance Efficiency'', 50), (''Security'', 50)] =
     Inr \<lparr>ilp_variables = [''Monolith'', ''Microservices''],
          ilp_constraints = [(''Deployment'', [''Monolith'', ''Microservices''])],
          ilp_objective = [(''Monolith'', 100), (''Microservices'', 0)]\<rparr> \<and>
   ilp_optimal
     \<lparr>ilp_variables = [''Monolith'', ''Microservices''],
      ilp_constraints = [(''Deployment'', [''Monolith'', ''Microservices''])],
      ilp_objective = [(''Monolith'', 100), (''Microservices'', 0)]\<rparr>
     example_solution \<and>
   (\<exists>greedy_decisions greedy_scores exact_decisions exact_scores.
      greedy remdups [''Performance Efficiency'', ''Security''] example_matrix
          [(''Performance Efficiency'', 50), (''Security'', 50)] =
        Inr (greedy_decisions, greedy_scores) \<and>
      ilp remdups (Some (\<lambda>p. Some example_solution)) [''Performance Efficiency'', ''Security'']
          example_matrix [(''Performance Efficiency'', 50), (''Security'', 50)] =
        Inr (exact_decisions, exact_scores) \<and>
      map arch_pattern_name greedy_decisions = get_all_groups remdups example_matrix \<and>
      map arch_pattern_name exact_decisions = get_all_groups remdups example_matrix \<and>
      list_all (maximal_in_category [''Performance Efficiency'', ''Security'']
                  [(''Performance Efficiency'', 50), (''Security'', 50)] example_matrix)
        greedy_decisions \<and>
      list_all (maximal_in_category [''Performance Efficiency'', ''Security'']
                  [(''Performance Efficiency'', 50), (''Security'', 50)] example_matrix)
        exact_decisions \<and>
      total_score exact_decisions = total_score greedy_decisions \<and>
      score_le (total_score greedy_decisions) (total_score exact_decisions)) \<and>
   (\<exists>sol. exhaustive_solver
            \<lparr>ilp_variables = [''Monolith'', ''Microservices''],
             ilp_constraints = [(''Deployment'', [''Monolith'', ''Microservices''])],
             ilp_objective = [(''Monolith'', 100), (''Microservices'', 0)]\<rparr> = Some sol \<and>
          ilp_optimal
            \<lparr>ilp_variables = [''Monolith'', ''Microservices''],
             ilp_constraints = [(''Deployment'', [''Monolith'', ''Microservices''])],
             ilp_objective = [(''Monolith'', 100), (''Microservices'', 0)]\<rparr> sol) \<and>
   ilp remdups (Some (\<lambda>p. None)) [''Performance Efficiency'', ''Security'']
       example_matrix [(''Performance Efficiency'', 50), (''Security'', 50)] = Inr ([], [])"
proof -
  let ?D = "[''Performance Efficiency'', ''Security'']"
  let ?W = "[(''Performance Efficiency'', 50::int), (''Security'', 50)]"
  let ?P = "\<lparr>ilp_variables = [''Monolith'', ''Microservices''],
          ilp_constraints = [(''Deployment'', [''Monolith'', ''Microservices''])],
          ilp_objective = [(''Monolith'', 100), (''Microservices'', 0)]\<rparr>"
  have h1: "wf_matrix example_matrix"
    by (simp add: wf_matrix_def example_matrix_def)
  have h2: "distinct ?D" by simp
  have h3: "iteration_order remdups" by (simp add: iteration_order_def)
  have p: "build_problem remdups ?D example_matrix ?W = Inr ?P"
    by (simp add: build_problem_def example_matrix_def get_all_groups_def
        get_rows_by_group_def row_score_def dict_get_def)
  have h4: "(\<lambda>p. Some example_solution) ?P = Some example_solution" by simp
  have h5: "ilp_optimal ?P example_solution"
    by (simp add: ilp_optimal_def ilp_feasible_def ilp_value_def example_solution_def)
  from greedy_and_exact_select_maximum [OF h1 h2 h3, of ?W]
  obtain gd gsc problem where
    g: "greedy remdups ?D example_matrix ?W = Inr (gd, gsc)"
    and gn: "map arch_pattern_name gd = get_all_groups remdups example_matrix"
    and gm: "list_all (maximal_in_category ?D ?W example_matrix) gd"
    and bp: "build_problem remdups ?D example_matrix ?W = Inr problem"
    and ex: "\<forall>solve sol. solve problem = Some sol \<and> ilp_optimal problem sol \<longrightarrow>
              (\<exists>exact_decisions exact_scores.
                 ilp remdups (Some solve) ?D example_matrix ?W =
                   Inr (exact_decisions, exact_scores) \<and>
                 map arch_pattern_name exact_decisions = get_all_groups remdups example_matrix \<and>
                 list_all (maximal_in_category ?D ?W example_matrix) exact_decisions \<and>
                 total_score exact_decisions = total_score gd \<and>
                 score_le (total_score gd) (total_score exact_decisions))"
    and xs: "\<exists>sol. exhaustive_solver problem = Some sol \<and> ilp_optimal problem sol"
    and no: "\<forall>solve. solve problem = None \<longrightarrow>
               ilp remdups (Some solve) ?D example_matrix ?W = Inr ([], [])"
    by blast
  have pe: "problem = ?P" using bp p by simp
  have n1: "ilp remdups (Some (\<lambda>p. None)) ?D example_matrix ?W = Inr ([], [])"
    using no [rule_format, of "\<lambda>p. None"] by simp
  from ex [rule_format, of "\<lambda>p. Some example_solution" example_solution] h4 h5
  obtain ed esc where
    e: "ilp remdups (Some (\<lambda>p. Some example_solution)) ?D example_matrix ?W = Inr (ed, esc)"
    and en: "map arch_pattern_name ed = get_all_groups remdups example_matrix"
    and em: "list_all (maximal_in_category ?D ?W example_matrix) ed"
    and tot: "total_score ed = total_score gd"
    and le: "score_le (total_score gd) (total_score ed)"
    unfolding pe by blast
  have first: "\<exists>greedy_decisions greedy_scores exact_decisions exact_scores.
      greedy remdups ?D example_matrix ?W = Inr (greedy_decisions, greedy_scores) \<and>
      ilp remdups (Some (\<lambda>p. Some example_solution)) ?D example_matrix ?W =
        Inr (exact_decisions, exact_scores) \<and>
      map arch_pattern_name greedy_decisions = get_all_groups remdups example_matrix \<and>
      map arch_pattern_name exact_decisions = get_all_groups remdups example_matrix \<and>
      list_all (maximal_in_category ?D ?W example_matrix) greedy_decisions \<and>
      list_all (maximal_in_category ?D ?W example_matrix) exact_decisions \<and>
      total_score exact_decisions = total_score greedy_decisions \<and>
      score_le (total_score greedy_decisions) (total_score exact_decisions)"
    using g e gn en gm em tot le by blast
  show ?thesis
    using h1 h2 h3 p h5 first xs [unfolded pe] n1 by simp
qed

end
